theory Spec2Isabelle
  imports Complex_Main "HOL-Library.Sublist"
begin

section \<open>JavaScript values used by the scraper\<close>

text \<open>
  A JavaScript number is a double.  Only two things about numbers matter to the code
  modelled here: whether a number is truthy (it is neither zero nor NaN) and, for the
  grid, exact arithmetic on values that doubles represent exactly.  Finite numbers are
  rationals; NaN and the infinities are separate values.
\<close>

datatype number = NaN | Num rat | PosInfinity | NegInfinity

fun truthy :: "number \<Rightarrow> bool" where
  "truthy NaN = False"
| "truthy (Num r) = (r \<noteq> 0)"
| "truthy PosInfinity = True"
| "truthy NegInfinity = True"

text \<open>An optional field (\<open>x?: number\<close>) is \<open>None\<close> when it is undefined; undefined is falsy.\<close>

fun truthy_opt :: "number option \<Rightarrow> bool" where
  "truthy_opt None = False"
| "truthy_opt (Some n) = truthy n"

text \<open>A string is truthy unless it is empty.\<close>

definition truthy_str :: "string option \<Rightarrow> bool" where
  "truthy_str s = (case s of None \<Rightarrow> False | Some t \<Rightarrow> t \<noteq> [])"

text \<open>\<open>a || b\<close> on numbers: the left operand when it is truthy, the right one otherwise.\<close>

definition or_num :: "number option \<Rightarrow> number \<Rightarrow> number" where
  "or_num a b = (case a of None \<Rightarrow> b | Some n \<Rightarrow> if truthy n then n else b)"

text \<open>\<open>String.prototype.toLowerCase\<close> on the ASCII letters, and \<open>String.prototype.str_includes\<close>.\<close>

definition lower_char :: "char \<Rightarrow> char" where
  "lower_char c =
     (let n = (of_char c :: nat) in if 65 \<le> n \<and> n \<le> 90 then char_of (n + 32) else c)"

definition toLowerCase :: "string \<Rightarrow> string" where
  "toLowerCase s = map lower_char s"

fun str_includes :: "string \<Rightarrow> string \<Rightarrow> bool" where
  "str_includes [] sub = (sub = [])"
| "str_includes (c # cs) sub = (take (length sub) (c # cs) = sub \<or> str_includes cs sub)"

section \<open>The transformer (src/transformer.ts)\<close>

text \<open>
  \<open>ZillowRawProperty\<close>, with the fields that \<open>getTransactionType\<close>,
  \<open>normalizePropertyType\<close> and the top level, \<open>location\<close> and \<open>listing_details\<close>
  parts of \<open>transformToStandard\<close> read.  A field the interface marks optional is an option.
  \<open>listingStatus\<close> is declared a string, but the code reads it through \<open>?.\<close>, so the
  model lets it be undefined as well.
\<close>

record ZillowRawProperty =
  zpid :: string
  address :: string
  city :: string
  state :: string
  zipcode :: string
  price :: number
  homeType :: string
  listingStatus :: "string option"
  latitude :: number
  longitude :: number
  rentZestimate :: "number option"
  imageUrl :: "string option"
  images :: "string list option"
  description :: "string option"
  daysOnZillow :: "number option"
  county :: "string option"
  mlsNumber :: "string option"
  rentPrice :: "number option"

datatype transaction_type = sale | rent

record coordinates =
  lat :: number
  lon :: number

record location =
  loc_address :: string
  loc_city :: string
  region :: string
  postal_code :: string
  country :: string
  loc_county :: "string option"
  loc_coordinates :: "coordinates option"

record listing_details =
  days_on_market :: "number option"
  status :: "string option"
  mls_number :: "string option"

text \<open>
  \<open>StandardProperty\<close>.  The parts left out (\<open>title\<close>, \<open>details\<close>, \<open>features\<close>,
  \<open>amenities\<close>, \<open>financial\<close>, \<open>country_specific\<close>) are computed from the raw record
  alone, by number formatting and rounded floating-point arithmetic; no field kept here
  reads them.
\<close>

record StandardProperty =
  sp_price :: number
  currency :: string
  property_type :: string
  transaction_type :: transaction_type
  sp_location :: location
  sp_images :: "string list"
  sp_description :: "string option"
  sp_listing_details :: listing_details

definition normalizePropertyType :: "string \<Rightarrow> string" where
  "normalizePropertyType zillowType =
     (let type = toLowerCase zillowType in
      if str_includes type ''single'' \<or> str_includes type ''sfr'' then ''house''
      else if str_includes type ''condo'' \<or> str_includes type ''condominium'' then ''apartment''
      else if str_includes type ''townhouse'' \<or> str_includes type ''townhome'' then ''townhouse''
      else if str_includes type ''multi'' \<or> str_includes type ''duplex'' \<or> str_includes type ''triplex''
        then ''multi_family''
      else if str_includes type ''land'' \<or> str_includes type ''lot'' then ''land''
      else if str_includes type ''mobile'' \<or> str_includes type ''manufactured'' then ''mobile_home''
      else if str_includes type ''farm'' \<or> str_includes type ''ranch'' then ''farm''
      else if str_includes type ''commercial'' then ''commercial''
      else if str_includes type ''apartment'' then ''apartment''
      else ''other'')"

definition getTransactionType :: "ZillowRawProperty \<Rightarrow> transaction_type" where
  "getTransactionType raw =
     (if truthy_opt (rentPrice raw) \<or> truthy_opt (rentZestimate raw) then rent
      else if (case listingStatus raw of None \<Rightarrow> False
               | Some s \<Rightarrow> str_includes (toLowerCase s) ''rent'') then rent
      else sale)"

text \<open>\<open>x || undefined\<close>: the value when it is truthy, undefined otherwise.\<close>

definition num_or_undefined :: "number option \<Rightarrow> number option" where
  "num_or_undefined x = (if truthy_opt x then x else None)"

definition str_or_undefined :: "string option \<Rightarrow> string option" where
  "str_or_undefined x = (if truthy_str x then x else None)"

text \<open>\<open>[...new Set(images)]\<close> keeps the first occurrence of every element, in order.\<close>

definition dedupe :: "string list \<Rightarrow> string list" where
  "dedupe xs = rev (remdups (rev xs))"

definition transformToStandard :: "ZillowRawProperty \<Rightarrow> StandardProperty" where
  "transformToStandard raw =
     (let transactionType = getTransactionType raw;
          actualPrice = (if transactionType = rent then or_num (rentPrice raw) (price raw)
                         else price raw);
          imgs = (case imageUrl raw of None \<Rightarrow> [] | Some u \<Rightarrow> if u \<noteq> [] then [u] else [])
                 @ (case images raw of None \<Rightarrow> [] | Some xs \<Rightarrow> xs)
      in \<lparr> sp_price = or_num (Some actualPrice) (Num 0),
           currency = ''USD'',
           property_type = normalizePropertyType (homeType raw),
           transaction_type = transactionType,
           sp_location = \<lparr> loc_address = address raw,
                           loc_city = city raw,
                           region = state raw,
                           postal_code = zipcode raw,
                           country = ''united states'',
                           loc_county = county raw,
                           loc_coordinates =
                             (if truthy (latitude raw) \<and> truthy (longitude raw)
                              then Some \<lparr> lat = latitude raw, lon = longitude raw \<rparr>
                              else None) \<rparr>,
           sp_images = dedupe imgs,
           sp_description = description raw,
           sp_listing_details = \<lparr> days_on_market = num_or_undefined (daysOnZillow raw),
                                  status = str_or_undefined (listingStatus raw),
                                  mls_number = str_or_undefined (mlsNumber raw) \<rparr> \<rparr>)"

text \<open>
  The reading of ``contains \<open>w\<close> case-insensitively'' that the property below is stated
  with: some window of the string, as long as \<open>w\<close>, equals \<open>w\<close> once both are put in
  lower case.
\<close>

fun contains_ci :: "string \<Rightarrow> string \<Rightarrow> bool" where
  "contains_ci [] w = (w = [])"
| "contains_ci (c # cs) w =
     (toLowerCase (take (length w) (c # cs)) = toLowerCase w \<or> contains_ci cs w)"

definition status_contains_rent :: "ZillowRawProperty \<Rightarrow> bool" where
  "status_contains_rent raw =
     (case listingStatus raw of None \<Rightarrow> False | Some s \<Rightarrow> contains_ci s ''rent'')"

section \<open>Effects: awaited calls, exceptions, the record of calls\<close>

text \<open>
  An awaited call either returns a value or raises; \<open>Throws\<close> carries the error message.
  An action runs on a state and gives an outcome and the state it leaves behind: what a
  call changed before it raised stays changed, as in JavaScript.
\<close>

datatype 'a outcome = Returns 'a | Throws string

type_synonym ('a, 's) action = "'s \<Rightarrow> 'a outcome \<times> 's"

definition ret :: "'a \<Rightarrow> ('a, 's) action" where
  "ret a s = (Returns a, s)"

definition throw :: "string \<Rightarrow> ('a, 's) action" where
  "throw e s = (Throws e, s)"

definition modify :: "('s \<Rightarrow> 's) \<Rightarrow> (unit, 's) action" where
  "modify f s = (Returns (), f s)"

definition bind_action :: "('a, 's) action \<Rightarrow> ('a \<Rightarrow> ('b, 's) action) \<Rightarrow> ('b, 's) action" where
  "bind_action m k s = (case m s of (Returns a, s') \<Rightarrow> k a s' | (Throws e, s') \<Rightarrow> (Throws e, s'))"

definition try_catch :: "('a, 's) action \<Rightarrow> (string \<Rightarrow> ('a, 's) action) \<Rightarrow> ('a, 's) action" where
  "try_catch m h s = (case m s of (Returns a, s') \<Rightarrow> (Returns a, s') | (Throws e, s') \<Rightarrow> h e s')"

text \<open>
  A process (worker or coordinator) runs against a world it does not control: the queue
  store, the network, the clock.  The world is a parameter; every call into it is written
  to \<open>trace\<close> with its outcome, in order.
\<close>

record ('w, 'e) process =
  world :: 'w
  trace :: "'e list"

definition call ::
  "('a outcome \<Rightarrow> 'e) \<Rightarrow> ('a, 'w) action \<Rightarrow> ('a, ('w, 'e, 'z) process_scheme) action" where
  "call ev f s = (case f (world s) of (r, w') \<Rightarrow> (r, s\<lparr>world := w', trace := trace s @ [ev r]\<rparr>))"

text \<open>A call that cannot raise (a timer): the world moves on and the call is recorded.\<close>

definition call_total :: "'e \<Rightarrow> ('w \<Rightarrow> 'w) \<Rightarrow> (unit, ('w, 'e, 'z) process_scheme) action" where
  "call_total ev f s = (Returns (), s\<lparr>world := f (world s), trace := trace s @ [ev]\<rparr>)"

section \<open>The worker (worker.ts)\<close>

text \<open>A search hit: \<open>_id\<close>, the \<open>id\<close> field of \<open>_source\<close> when it has one, and \<open>_source\<close>.\<close>

record 'raw hit =
  hit_id :: string
  source_id :: "string option"
  hit_source :: 'raw

text \<open>
  The object \<open>fetchPropertyDetail\<close> builds:
  \<open>{id: hit._id, source, url, ...hit._source, rawData: hit._source}\<close>.  The spread comes
  after \<open>id\<close>, so an \<open>id\<close> inside \<open>_source\<close> replaces it.
\<close>

record 'raw property =
  prop_id :: string
  url :: string
  rawData :: 'raw

record 'raw IngestionPayload =
  portal_id :: string
  data :: StandardProperty
  raw_data :: 'raw
  payload_status :: string

datatype 'raw event =
    Ev_popListingId nat "string option outcome"
  | Ev_getStats "unit outcome"
  | Ev_isProcessed string "bool outcome"
  | Ev_axios_get string "'raw hit list option outcome"
  | Ev_markFailed string string "unit outcome"
  | Ev_hasPropertyChanged string 'raw "bool outcome"
  | Ev_axios_post "'raw IngestionPayload" "unit outcome"
  | Ev_storePropertySnapshot string 'raw "unit outcome"
  | Ev_markProcessed string "unit outcome"
  | Ev_requeueWithRetry string nat "bool outcome"
  | Ev_randomDelay rat rat
  | Ev_close "unit outcome"

text \<open>
  What the worker calls.  The \<open>RedisQueue\<close> methods (redis-queue.ts), \<open>randomDelay\<close>
  (utils.ts) and axios are not among the sources, so each is a parameter: any behaviour,
  raising included, except for \<open>randomDelay\<close>.

  Modelled from the spec: \<open>randomDelay\<close>, a sleep of a random length between two bounds
  (``sleep a randomized delay drawn uniformly from a configured range''); it returns.

  \<open>stopRequested\<close> tells whether \<open>stop()\<close> has been invoked, from a signal handler, since
  the main loop last read \<open>isRunning\<close>.  \<open>asZillowRaw\<close> is the fetched object read as the
  \<open>ZillowRawProperty\<close> that \<open>transformToStandard\<close> expects, \<open>None\<close> when reading it
  raises a TypeError (\<open>homeType\<close> is not a string).  \<open>apiKey\<close> is whether
  \<open>config.apiKey\<close> is truthy.
\<close>

record ('w, 'raw) env =
  isProcessed :: "string \<Rightarrow> (bool, 'w) action"
  markFailed :: "string \<Rightarrow> string \<Rightarrow> (unit, 'w) action"
  hasPropertyChanged :: "string \<Rightarrow> 'raw \<Rightarrow> (bool, 'w) action"
  storePropertySnapshot :: "string \<Rightarrow> 'raw \<Rightarrow> (unit, 'w) action"
  markProcessed :: "string \<Rightarrow> (unit, 'w) action"
  requeueWithRetry :: "string \<Rightarrow> nat \<Rightarrow> (bool, 'w) action"
  popListingId :: "nat \<Rightarrow> (string option, 'w) action"
  queue_getStats :: "(unit, 'w) action"
  queue_close :: "(unit, 'w) action"
  axios_get :: "string \<Rightarrow> ('raw hit list option, 'w) action"
  axios_post :: "'raw IngestionPayload \<Rightarrow> (unit, 'w) action"
  randomDelay :: "rat \<Rightarrow> rat \<Rightarrow> 'w \<Rightarrow> 'w"
  stopRequested :: "'w \<Rightarrow> bool"
  asZillowRaw :: "'raw property \<Rightarrow> ZillowRawProperty option"
  apiKey :: bool
  requestDelayMs :: rat

text \<open>The fields of a \<open>QuintoAndarWorker\<close>.\<close>

record ('w, 'raw) worker = "('w, 'raw event) process" +
  isRunning :: bool
  processedCount :: nat
  failedCount :: nat
  changedCount :: nat
  unchangedCount :: nat

type_synonym ('a, 'w, 'raw) wk = "('a, ('w, 'raw) worker) action"

text \<open>
  \<open>fetchPropertyDetail\<close>: the first hit as a property, \<open>null\<close> when there is none; any
  error of the request is raised again as \<open>Fetch failed: ...\<close>.
\<close>

definition property_of_hit :: "'raw hit \<Rightarrow> 'raw property" where
  "property_of_hit h =
     \<lparr> prop_id = (case source_id h of None \<Rightarrow> hit_id h | Some i \<Rightarrow> i),
       url = ''https://www.quintoandar.com.br/imovel/'' @ hit_id h,
       rawData = hit_source h \<rparr>"

definition fetchPropertyDetail :: "('w, 'raw) env \<Rightarrow> string \<Rightarrow> ('raw property option, 'w, 'raw) wk" where
  "fetchPropertyDetail env listingId =
     try_catch
       (bind_action (call (Ev_axios_get listingId) (axios_get env listingId))
          (\<lambda>hits. ret (case hits of
                          None \<Rightarrow> None
                        | Some [] \<Rightarrow> None
                        | Some (h # _) \<Rightarrow> Some (property_of_hit h))))
       (\<lambda>error. throw (''Fetch failed: '' @ error))"

text \<open>\<open>sendToCoreService\<close> (core.ts): nothing without an API key; an error of the post is raised again.\<close>

definition sendToCoreService :: "('w, 'raw) env \<Rightarrow> 'raw IngestionPayload \<Rightarrow> (unit, 'w, 'raw) wk" where
  "sendToCoreService env payload =
     (if \<not> apiKey env then ret ()
      else try_catch (call (Ev_axios_post payload) (axios_post env payload))
             (\<lambda>error. throw error))"

text \<open>The call \<open>transformToStandard(property)\<close> on the untyped fetched object.\<close>

definition transform_property :: "('w, 'raw) env \<Rightarrow> 'raw property \<Rightarrow> (StandardProperty, 'w, 'raw) wk" where
  "transform_property env p =
     (case asZillowRaw env p of
        None \<Rightarrow> throw ''TypeError''
      | Some raw \<Rightarrow> ret (transformToStandard raw))"

text \<open>The payload \<open>processListing\<close> sends for a changed property.\<close>

definition active_payload :: "'raw property \<Rightarrow> StandardProperty \<Rightarrow> 'raw IngestionPayload" where
  "active_payload p standardized =
     \<lparr> portal_id = prop_id p, data = standardized,
       raw_data = rawData p, payload_status = ''active'' \<rparr>"

text \<open>
  The \<open>else\<close> branch of \<open>processListing\<close>, for a property that changed or is new:
  transform, send when an API key is configured, then store the snapshot and count.
\<close>

definition forward_changed :: "('w, 'raw) env \<Rightarrow> string \<Rightarrow> 'raw property \<Rightarrow> (unit, 'w, 'raw) wk" where
  "forward_changed env lid p =
     bind_action (transform_property env p) (\<lambda>standardized.
     bind_action
       (if apiKey env
        then sendToCoreService env (active_payload p standardized)
        else ret ()) (\<lambda>_.
     bind_action (call (Ev_storePropertySnapshot lid (rawData p))
                    (storePropertySnapshot env lid (rawData p))) (\<lambda>_.
     modify (\<lambda>s. s\<lparr>changedCount := changedCount s + 1\<rparr>))))"

text \<open>The rest of the \<open>try\<close> block once the fetch has returned a property.\<close>

definition processListing_found :: "('w, 'raw) env \<Rightarrow> string \<Rightarrow> 'raw property \<Rightarrow> (bool, 'w, 'raw) wk" where
  "processListing_found env lid p =
     bind_action (call (Ev_hasPropertyChanged lid (rawData p))
                    (hasPropertyChanged env lid (rawData p))) (\<lambda>hasChanged.
     bind_action
       (if \<not> hasChanged
        then modify (\<lambda>s. s\<lparr>unchangedCount := unchangedCount s + 1\<rparr>)
        else forward_changed env lid p) (\<lambda>_.
     bind_action (call (Ev_markProcessed lid) (markProcessed env lid)) (\<lambda>_.
     bind_action (modify (\<lambda>s. s\<lparr>processedCount := processedCount s + 1\<rparr>)) (\<lambda>_.
     ret True))))"

text \<open>The \<open>try\<close> block of \<open>processListing\<close>.\<close>

definition processListing_try :: "('w, 'raw) env \<Rightarrow> string \<Rightarrow> (bool, 'w, 'raw) wk" where
  "processListing_try env lid =
     bind_action (call (Ev_isProcessed lid) (isProcessed env lid)) (\<lambda>isProc.
       if isProc then ret True
       else bind_action (fetchPropertyDetail env lid) (\<lambda>property.
         case property of
           None \<Rightarrow>
             bind_action (call (Ev_markFailed lid ''Not found'') (markFailed env lid ''Not found''))
               (\<lambda>_. ret False)
         | Some p \<Rightarrow> processListing_found env lid p))"

text \<open>The \<open>catch\<close> block: requeue with the retry limit 3; count the id as failed when that is refused.\<close>

definition processListing_catch :: "('w, 'raw) env \<Rightarrow> string \<Rightarrow> string \<Rightarrow> (bool, 'w, 'raw) wk" where
  "processListing_catch env lid error =
     bind_action (call (Ev_requeueWithRetry lid 3) (requeueWithRetry env lid 3)) (\<lambda>requeued.
     bind_action
       (if \<not> requeued then modify (\<lambda>s. s\<lparr>failedCount := failedCount s + 1\<rparr>) else ret ()) (\<lambda>_.
     ret False))"

definition processListing :: "('w, 'raw) env \<Rightarrow> string \<Rightarrow> (bool, 'w, 'raw) wk" where
  "processListing env lid = try_catch (processListing_try env lid) (processListing_catch env lid)"

text \<open>\<open>getStats\<close> of the worker, without the formatted \<open>changeRate\<close>.\<close>

record worker_stats =
  stats_processedCount :: nat
  stats_changedCount :: nat
  stats_unchangedCount :: nat
  stats_failedCount :: nat
  stats_isRunning :: bool

definition getStats :: "('w, 'raw) worker \<Rightarrow> worker_stats" where
  "getStats s =
     \<lparr> stats_processedCount = processedCount s, stats_changedCount = changedCount s,
       stats_unchangedCount = unchangedCount s, stats_failedCount = failedCount s,
       stats_isRunning = isRunning s \<rparr>"

subsection \<open>The main loop\<close>

text \<open>\<open>stop()\<close>: clear the flag, then close the queue.\<close>

definition stop :: "('w, 'raw) env \<Rightarrow> ('w, 'raw) worker \<Rightarrow> ('w, 'raw) worker" where
  "stop env s = snd (call Ev_close (queue_close env) (s\<lparr>isRunning := False\<rparr>))"

definition maxEmptyChecks :: nat where
  "maxEmptyChecks = 10"

datatype control = Break | Continue

text \<open>
  One pass through the body of \<open>while (this.isRunning)\<close>.  The local
  \<open>emptyQueueCount\<close> travels with the worker, so that what the \<open>try\<close> block did to it
  before raising is kept.  \<open>!id\<close> holds for \<open>null\<close> and for the empty string.
\<close>

type_synonym ('a, 'w, 'raw) lp = "('a, nat \<times> ('w, 'raw) worker) action"

definition on_worker :: "('a, 'w, 'raw) wk \<Rightarrow> ('a, 'w, 'raw) lp" where
  "on_worker m cs = (case m (snd cs) of (r, s') \<Rightarrow> (r, (fst cs, s')))"

definition falsy_id :: "string option \<Rightarrow> bool" where
  "falsy_id r = (case r of None \<Rightarrow> True | Some i \<Rightarrow> i = [])"

definition iteration_try :: "('w, 'raw) env \<Rightarrow> (control, 'w, 'raw) lp" where
  "iteration_try env =
     bind_action (on_worker (call (Ev_popListingId 5) (popListingId env 5))) (\<lambda>lid.
       if falsy_id lid then
         bind_action (modify (\<lambda>cs. (fst cs + 1, snd cs))) (\<lambda>_. (\<lambda>cs.
           (if fst cs \<ge> maxEmptyChecks then ret Break
            else bind_action (on_worker (call Ev_getStats (queue_getStats env)))
                   (\<lambda>_. ret Continue)) cs))
       else
         bind_action (modify (\<lambda>cs. (0, snd cs))) (\<lambda>_.
         bind_action (on_worker (processListing env (case lid of Some i \<Rightarrow> i | None \<Rightarrow> []))) (\<lambda>_.
         bind_action (on_worker (call_total
                        (Ev_randomDelay (requestDelayMs env * (6 / 10)) (requestDelayMs env * (16 / 10)))
                        (randomDelay env (requestDelayMs env * (6 / 10)) (requestDelayMs env * (16 / 10)))))
           (\<lambda>_. ret Continue))))"

definition iteration_catch :: "('w, 'raw) env \<Rightarrow> string \<Rightarrow> (control, 'w, 'raw) lp" where
  "iteration_catch env error =
     bind_action (on_worker (call_total (Ev_randomDelay 5000 10000) (randomDelay env 5000 10000)))
       (\<lambda>_. ret Continue)"

definition iteration :: "('w, 'raw) env \<Rightarrow> (control, 'w, 'raw) lp" where
  "iteration env = try_catch (iteration_try env) (iteration_catch env)"

text \<open>A pending \<open>stop()\<close> runs before the loop reads the flag.\<close>

definition signals :: "('w, 'raw) env \<Rightarrow> ('w, 'raw) worker \<Rightarrow> ('w, 'raw) worker" where
  "signals env s = (if stopRequested env (world s) then stop env s else s)"

text \<open>
  The loop may run for ever, so it takes fuel: one unit for each test of the loop
  condition.  \<open>None\<close> means the fuel ran out with the loop still going.
\<close>

fun start_loop ::
  "('w, 'raw) env \<Rightarrow> nat \<Rightarrow> nat \<times> ('w, 'raw) worker \<Rightarrow> (unit outcome \<times> ('w, 'raw) worker) option" where
  "start_loop env 0 cs = None"
| "start_loop env (Suc fuel) cs =
     (let s = signals env (snd cs) in
      if \<not> isRunning s then Some (Returns (), s)
      else case iteration env (fst cs, s) of
             (Throws e, cs') \<Rightarrow> Some (Throws e, snd cs')
           | (Returns Break, cs') \<Rightarrow> Some (Returns (), snd cs')
           | (Returns Continue, cs') \<Rightarrow> start_loop env fuel cs')"

definition start :: "('w, 'raw) env \<Rightarrow> nat \<Rightarrow> ('w, 'raw) worker \<Rightarrow> (unit outcome \<times> ('w, 'raw) worker) option" where
  "start env fuel s = start_loop env fuel (0, s\<lparr>isRunning := True\<rparr>)"

subsection \<open>The runs of \<open>processListing\<close>\<close>

text \<open>
  A worker after some calls: the world they left, the calls added to the trace, and what
  was added to the counters \<open>unchangedCount\<close>, \<open>changedCount\<close>, \<open>processedCount\<close> and
  \<open>failedCount\<close>.
\<close>

definition advance ::
  "('w, 'raw) worker \<Rightarrow> 'w \<Rightarrow> 'raw event list \<Rightarrow> nat \<Rightarrow> nat \<Rightarrow> nat \<Rightarrow> nat \<Rightarrow> ('w, 'raw) worker" where
  "advance s w evs du dc dp df =
     s\<lparr> world := w, trace := trace s @ evs,
        unchangedCount := unchangedCount s + du, changedCount := changedCount s + dc,
        processedCount := processedCount s + dp, failedCount := failedCount s + df \<rparr>"

text \<open>The calls a step added to the trace.\<close>

definition new_events :: "('w, 'raw) worker \<Rightarrow> ('w, 'raw) worker \<Rightarrow> 'raw event list" where
  "new_events s s' = drop (length (trace s)) (trace s')"

text \<open>
  The runs of the branch for a changed property, by the calls made and their outcomes:
  the transform raises; the post raises; the snapshot store raises; all return.  The post
  is there only with an API key.
\<close>

inductive forward_run ::
  "('w, 'raw) env \<Rightarrow> string \<Rightarrow> 'raw property \<Rightarrow> unit outcome \<Rightarrow> 'raw event list \<Rightarrow> nat \<Rightarrow> bool"
  for env :: "('w, 'raw) env" and lid :: string and p :: "'raw property" where
  F_transform_raises:
    "asZillowRaw env p = None \<Longrightarrow> forward_run env lid p (Throws ''TypeError'') [] 0"
| F_post_raises:
    "asZillowRaw env p = Some z \<Longrightarrow> apiKey env \<Longrightarrow>
     forward_run env lid p (Throws e) [Ev_axios_post (active_payload p (transformToStandard z)) (Throws e)] 0"
| F_store_raises:
    "asZillowRaw env p = Some z \<Longrightarrow>
     forward_run env lid p (Throws e)
       ((if apiKey env then [Ev_axios_post (active_payload p (transformToStandard z)) (Returns ())] else [])
        @ [Ev_storePropertySnapshot lid (rawData p) (Throws e)]) 0"
| F_stored:
    "asZillowRaw env p = Some z \<Longrightarrow>
     forward_run env lid p (Returns ())
       ((if apiKey env then [Ev_axios_post (active_payload p (transformToStandard z)) (Returns ())] else [])
        @ [Ev_storePropertySnapshot lid (rawData p) (Returns ())]) 1"

text \<open>
  The runs of the \<open>try\<close> block: result, calls, and what was added to \<open>unchangedCount\<close>,
  \<open>changedCount\<close> and \<open>processedCount\<close>.
\<close>

inductive try_run ::
  "('w, 'raw) env \<Rightarrow> string \<Rightarrow> bool outcome \<Rightarrow> 'raw event list \<Rightarrow> nat \<Rightarrow> nat \<Rightarrow> nat \<Rightarrow> bool"
  for env :: "('w, 'raw) env" and lid :: string where
  T_isProcessed_raises:
    "try_run env lid (Throws e) [Ev_isProcessed lid (Throws e)] 0 0 0"
| T_skipped:
    "try_run env lid (Returns True) [Ev_isProcessed lid (Returns True)] 0 0 0"
| T_fetch_raises:
    "try_run env lid (Throws (''Fetch failed: '' @ e))
       [Ev_isProcessed lid (Returns False), Ev_axios_get lid (Throws e)] 0 0 0"
| T_not_found:
    "hits = None \<or> hits = Some [] \<Longrightarrow>
     try_run env lid (Returns False)
       [Ev_isProcessed lid (Returns False), Ev_axios_get lid (Returns hits),
        Ev_markFailed lid ''Not found'' (Returns ())] 0 0 0"
| T_markFailed_raises:
    "hits = None \<or> hits = Some [] \<Longrightarrow>
     try_run env lid (Throws e)
       [Ev_isProcessed lid (Returns False), Ev_axios_get lid (Returns hits),
        Ev_markFailed lid ''Not found'' (Throws e)] 0 0 0"
| T_hasPropertyChanged_raises:
    "try_run env lid (Throws e)
       [Ev_isProcessed lid (Returns False), Ev_axios_get lid (Returns (Some (h # hs))),
        Ev_hasPropertyChanged lid (hit_source h) (Throws e)] 0 0 0"
| T_unchanged:
    "try_run env lid (Returns True)
       [Ev_isProcessed lid (Returns False), Ev_axios_get lid (Returns (Some (h # hs))),
        Ev_hasPropertyChanged lid (hit_source h) (Returns False),
        Ev_markProcessed lid (Returns ())] 1 0 1"
| T_unchanged_markProcessed_raises:
    "try_run env lid (Throws e)
       [Ev_isProcessed lid (Returns False), Ev_axios_get lid (Returns (Some (h # hs))),
        Ev_hasPropertyChanged lid (hit_source h) (Returns False),
        Ev_markProcessed lid (Throws e)] 1 0 0"
| T_forward_raises:
    "forward_run env lid (property_of_hit h) (Throws e) fevs dc \<Longrightarrow>
     try_run env lid (Throws e)
       ([Ev_isProcessed lid (Returns False), Ev_axios_get lid (Returns (Some (h # hs))),
         Ev_hasPropertyChanged lid (hit_source h) (Returns True)] @ fevs) 0 dc 0"
| T_changed:
    "forward_run env lid (property_of_hit h) (Returns ()) fevs dc \<Longrightarrow>
     try_run env lid (Returns True)
       ([Ev_isProcessed lid (Returns False), Ev_axios_get lid (Returns (Some (h # hs))),
         Ev_hasPropertyChanged lid (hit_source h) (Returns True)] @ fevs
        @ [Ev_markProcessed lid (Returns ())]) 0 dc 1"
| T_changed_markProcessed_raises:
    "forward_run env lid (property_of_hit h) (Returns ()) fevs dc \<Longrightarrow>
     try_run env lid (Throws e)
       ([Ev_isProcessed lid (Returns False), Ev_axios_get lid (Returns (Some (h # hs))),
         Ev_hasPropertyChanged lid (hit_source h) (Returns True)] @ fevs
        @ [Ev_markProcessed lid (Throws e)]) 0 dc 0"

text \<open>
  The runs of \<open>processListing\<close>: the \<open>try\<close> block returns; or it raises and the requeue
  is accepted, refused, or raises itself.  The last number is what was added to
  \<open>failedCount\<close>.
\<close>

inductive listing_run ::
  "('w, 'raw) env \<Rightarrow> string \<Rightarrow> bool outcome \<Rightarrow> 'raw event list
    \<Rightarrow> nat \<Rightarrow> nat \<Rightarrow> nat \<Rightarrow> nat \<Rightarrow> bool"
  for env :: "('w, 'raw) env" and lid :: string where
  L_returned:
    "try_run env lid (Returns b) evs du dc dp \<Longrightarrow>
     listing_run env lid (Returns b) evs du dc dp 0"
| L_requeued:
    "try_run env lid (Throws e) evs du dc dp \<Longrightarrow>
     listing_run env lid (Returns False)
       (evs @ [Ev_requeueWithRetry lid 3 (Returns True)]) du dc dp 0"
| L_retries_exhausted:
    "try_run env lid (Throws e) evs du dc dp \<Longrightarrow>
     listing_run env lid (Returns False)
       (evs @ [Ev_requeueWithRetry lid 3 (Returns False)]) du dc dp 1"
| L_requeue_raises:
    "try_run env lid (Throws e) evs du dc dp \<Longrightarrow>
     listing_run env lid (Throws e')
       (evs @ [Ev_requeueWithRetry lid 3 (Throws e')]) du dc dp 0"

subsection \<open>What a trace shows\<close>

text \<open>The kinds of call the properties of the worker speak about, read off a trace.\<close>

fun is_post :: "'raw event \<Rightarrow> bool" where
  "is_post (Ev_axios_post pl r) = True"
| "is_post _ = False"

fun is_post_returned :: "'raw event \<Rightarrow> bool" where
  "is_post_returned (Ev_axios_post pl (Returns u)) = True"
| "is_post_returned _ = False"

fun is_store :: "string \<Rightarrow> 'raw event \<Rightarrow> bool" where
  "is_store lid (Ev_storePropertySnapshot i raw r) = (i = lid)"
| "is_store lid _ = False"

fun is_store_returned :: "string \<Rightarrow> 'raw event \<Rightarrow> bool" where
  "is_store_returned lid (Ev_storePropertySnapshot i raw (Returns u)) = (i = lid)"
| "is_store_returned lid _ = False"

fun is_markProcessed :: "string \<Rightarrow> 'raw event \<Rightarrow> bool" where
  "is_markProcessed lid (Ev_markProcessed i r) = (i = lid)"
| "is_markProcessed lid _ = False"

fun is_markProcessed_raised :: "'raw event \<Rightarrow> bool" where
  "is_markProcessed_raised (Ev_markProcessed i (Throws e)) = True"
| "is_markProcessed_raised _ = False"

fun is_markFailed :: "string \<Rightarrow> 'raw event \<Rightarrow> bool" where
  "is_markFailed lid (Ev_markFailed i reason r) = (i = lid)"
| "is_markFailed lid _ = False"

fun is_requeue :: "string \<Rightarrow> 'raw event \<Rightarrow> bool" where
  "is_requeue lid (Ev_requeueWithRetry i n r) = (i = lid)"
| "is_requeue lid _ = False"

fun is_requeue_with :: "string \<Rightarrow> nat \<Rightarrow> 'raw event \<Rightarrow> bool" where
  "is_requeue_with lid n (Ev_requeueWithRetry i m r) = (i = lid \<and> m = n)"
| "is_requeue_with lid n _ = False"

fun is_get_raised :: "string \<Rightarrow> 'raw event \<Rightarrow> bool" where
  "is_get_raised lid (Ev_axios_get i (Throws e)) = (i = lid)"
| "is_get_raised lid _ = False"

fun is_post_raised :: "'raw event \<Rightarrow> bool" where
  "is_post_raised (Ev_axios_post pl (Throws e)) = True"
| "is_post_raised _ = False"

text \<open>The fetch reported not-found: the request returned and there was no hit.\<close>

definition no_hit :: "'raw hit list option \<Rightarrow> bool" where
  "no_hit hits = (case hits of None \<Rightarrow> True | Some xs \<Rightarrow> xs = [])"

fun is_not_found :: "string \<Rightarrow> 'raw event \<Rightarrow> bool" where
  "is_not_found lid (Ev_axios_get i (Returns hits)) = (i = lid \<and> no_hit hits)"
| "is_not_found lid _ = False"

fun is_pop :: "'raw event \<Rightarrow> bool" where
  "is_pop (Ev_popListingId t r) = True"
| "is_pop _ = False"

definition forwarded :: "'raw event list \<Rightarrow> bool" where
  "forwarded evs = list_ex is_post evs"

definition forward_returned :: "'raw event list \<Rightarrow> bool" where
  "forward_returned evs = list_ex is_post_returned evs"

definition snapshot_stored :: "string \<Rightarrow> 'raw event list \<Rightarrow> bool" where
  "snapshot_stored lid evs = list_ex (is_store lid) evs"

definition snapshot_store_returned :: "string \<Rightarrow> 'raw event list \<Rightarrow> bool" where
  "snapshot_store_returned lid evs = list_ex (is_store_returned lid) evs"

definition marked_processed :: "string \<Rightarrow> 'raw event list \<Rightarrow> bool" where
  "marked_processed lid evs = list_ex (is_markProcessed lid) evs"

definition markProcessed_raised :: "'raw event list \<Rightarrow> bool" where
  "markProcessed_raised evs = list_ex is_markProcessed_raised evs"

definition marked_failed :: "string \<Rightarrow> 'raw event list \<Rightarrow> bool" where
  "marked_failed lid evs = list_ex (is_markFailed lid) evs"

definition requeued :: "string \<Rightarrow> 'raw event list \<Rightarrow> bool" where
  "requeued lid evs = list_ex (is_requeue lid) evs"

definition requeued_with :: "string \<Rightarrow> nat \<Rightarrow> 'raw event list \<Rightarrow> bool" where
  "requeued_with lid n evs = list_ex (is_requeue_with lid n) evs"

definition fetch_raised :: "string \<Rightarrow> 'raw event list \<Rightarrow> bool" where
  "fetch_raised lid evs = list_ex (is_get_raised lid) evs"

definition forward_raised :: "'raw event list \<Rightarrow> bool" where
  "forward_raised evs = list_ex is_post_raised evs"

definition not_found :: "string \<Rightarrow> 'raw event list \<Rightarrow> bool" where
  "not_found lid evs = list_ex (is_not_found lid) evs"

text \<open>The invariant of the counters that \<open>getStats\<close> reports.\<close>

definition counters_balanced :: "('w, 'raw) worker \<Rightarrow> bool" where
  "counters_balanced s = (processedCount s = changedCount s + unchangedCount s)"

text \<open>
  What the trace of one \<open>processListing\<close> shows once the fetch has returned the hit \<open>h\<close>:
  nothing is posted or stored for an unchanged payload; for a changed one the post needs
  the API key and a transform that returns, the snapshot store needs the post (if any) to
  return, and \<open>markProcessed\<close> needs the snapshot store to return.
\<close>

definition found_obs :: "('w, 'raw) env \<Rightarrow> string \<Rightarrow> 'raw hit \<Rightarrow> 'raw event list \<Rightarrow> bool" where
  "found_obs env lid h evs \<longleftrightarrow>
     (Ev_hasPropertyChanged lid (hit_source h) (Returns False) \<in> set evs \<longrightarrow>
        \<not> forwarded evs \<and> \<not> snapshot_stored lid evs \<and> marked_processed lid evs)
   \<and> (Ev_hasPropertyChanged lid (hit_source h) (Returns True) \<in> set evs \<longrightarrow>
        (forwarded evs \<longleftrightarrow> apiKey env \<and> asZillowRaw env (property_of_hit h) \<noteq> None)
      \<and> (snapshot_stored lid evs \<longleftrightarrow>
           asZillowRaw env (property_of_hit h) \<noteq> None \<and> (apiKey env \<longrightarrow> forward_returned evs))
      \<and> (marked_processed lid evs \<longleftrightarrow> snapshot_store_returned lid evs))"

subsection \<open>A fixed world for examples\<close>

text \<open>
  A world that never changes: the id is not yet processed, the request returns one hit,
  the payload has changed, and every call returns.  Examples override single fields.
\<close>

definition raw0 :: ZillowRawProperty where
  "raw0 = \<lparr> zpid = ''1'', address = ''1 Main St'', city = ''Austin'', state = ''TX'',
     zipcode = ''78701'', price = Num 1500, homeType = ''CONDO'', listingStatus = Some ''FOR_RENT'',
     latitude = Num 30, longitude = Num (-97), rentZestimate = None, imageUrl = None,
     images = None, description = None, daysOnZillow = None, county = None, mlsNumber = None,
     rentPrice = None \<rparr>"

definition hit0 :: "string hit" where
  "hit0 = \<lparr> hit_id = ''A1'', source_id = None, hit_source = ''{price:100}'' \<rparr>"

definition quiet_env :: "(unit, string) env" where
  "quiet_env =
     \<lparr> isProcessed = (\<lambda>_ w. (Returns False, w)),
       markFailed = (\<lambda>_ _ w. (Returns (), w)),
       hasPropertyChanged = (\<lambda>_ _ w. (Returns True, w)),
       storePropertySnapshot = (\<lambda>_ _ w. (Returns (), w)),
       markProcessed = (\<lambda>_ w. (Returns (), w)),
       requeueWithRetry = (\<lambda>_ _ w. (Returns True, w)),
       popListingId = (\<lambda>_ w. (Returns None, w)),
       queue_getStats = (\<lambda>w. (Returns (), w)),
       queue_close = (\<lambda>w. (Returns (), w)),
       axios_get = (\<lambda>_ w. (Returns (Some [hit0]), w)),
       axios_post = (\<lambda>_ w. (Returns (), w)),
       randomDelay = (\<lambda>_ _ w. w),
       stopRequested = (\<lambda>_. False),
       asZillowRaw = (\<lambda>_. Some raw0),
       apiKey = True,
       requestDelayMs = 2000 \<rparr>"

definition worker0 :: "(unit, string) worker" where
  "worker0 = \<lparr> world = (), trace = [], isRunning = False, processedCount = 0,
                failedCount = 0, changedCount = 0, unchangedCount = 0 \<rparr>"

text \<open>No API key is configured.\<close>

definition no_key_env :: "(unit, string) env" where
  "no_key_env = quiet_env\<lparr>apiKey := False\<rparr>"

text \<open>The payload is the one already stored.\<close>

definition unchanged_env :: "(unit, string) env" where
  "unchanged_env = quiet_env\<lparr>hasPropertyChanged := (\<lambda>_ _ w. (Returns False, w))\<rparr>"

text \<open>The listing is gone and the queue store fails while \<open>markFailed\<close> runs.\<close>

definition gone_store_down_env :: "(unit, string) env" where
  "gone_store_down_env =
     quiet_env\<lparr>axios_get := (\<lambda>_ w. (Returns (Some []), w)),
               markFailed := (\<lambda>_ _ w. (Throws ''store unavailable'', w))\<rparr>"

text \<open>The listing is gone.\<close>

definition gone_env :: "(unit, string) env" where
  "gone_env = quiet_env\<lparr>axios_get := (\<lambda>_ w. (Returns (Some []), w))\<rparr>"

text \<open>The request fails, and the retries are used up.\<close>

definition fetch_fails_env :: "(unit, string) env" where
  "fetch_fails_env =
     quiet_env\<lparr>axios_get := (\<lambda>_ w. (Throws ''timeout'', w)),
               requeueWithRetry := (\<lambda>_ _ w. (Returns False, w))\<rparr>"

text \<open>The payload is unchanged and the queue store fails while \<open>markProcessed\<close> runs.\<close>

definition unchanged_store_down_env :: "(unit, string) env" where
  "unchanged_store_down_env =
     quiet_env\<lparr>hasPropertyChanged := (\<lambda>_ _ w. (Returns False, w)),
               markProcessed := (\<lambda>_ w. (Throws ''store unavailable'', w))\<rparr>"

text \<open>The request fails and so does the requeue.\<close>

definition all_down_env :: "(unit, string) env" where
  "all_down_env =
     quiet_env\<lparr>axios_get := (\<lambda>_ w. (Throws ''timeout'', w)),
               requeueWithRetry := (\<lambda>_ _ w. (Throws ''store unavailable'', w))\<rparr>"

text \<open>The id was processed by someone else in the meantime.\<close>

definition already_processed_env :: "(unit, string) env" where
  "already_processed_env = quiet_env\<lparr>isProcessed := (\<lambda>_ w. (Returns True, w))\<rparr>"

subsection \<open>What a trace shows about the main loop\<close>

text \<open>
  The number of empty claim results at the end of a trace with no non-empty claim result
  after them, counted on from \<open>c\<close>.  A claim that raised gave no result; other calls do
  not count.
\<close>

fun empty_streak :: "nat \<Rightarrow> 'raw event list \<Rightarrow> nat" where
  "empty_streak c [] = c"
| "empty_streak c (Ev_popListingId t (Returns r) # evs) =
     empty_streak (if falsy_id r then c + 1 else 0) evs"
| "empty_streak c (ev # evs) = empty_streak c evs"

text \<open>The calls whose exception reaches the \<open>catch\<close> of the loop body.\<close>

fun is_loop_raise :: "'raw event \<Rightarrow> bool" where
  "is_loop_raise (Ev_popListingId t (Throws e)) = True"
| "is_loop_raise (Ev_getStats (Throws e)) = True"
| "is_loop_raise (Ev_requeueWithRetry i n (Throws e)) = True"
| "is_loop_raise _ = False"

definition iteration_raised :: "'raw event list \<Rightarrow> bool" where
  "iteration_raised evs = list_ex is_loop_raise evs"

fun is_close :: "'raw event \<Rightarrow> bool" where
  "is_close (Ev_close r) = True"
| "is_close _ = False"

definition stop_ran :: "'raw event list \<Rightarrow> bool" where
  "stop_ran evs = list_ex is_close evs"

text \<open>A claim that returned a non-empty id.\<close>

fun is_claimed :: "'raw event \<Rightarrow> bool" where
  "is_claimed (Ev_popListingId t (Returns r)) = (\<not> falsy_id r)"
| "is_claimed _ = False"

definition claimed_an_id :: "'raw event list \<Rightarrow> bool" where
  "claimed_an_id evs = list_ex is_claimed evs"






section \<open>The Queue Engine\<close>

text \<open>
  Modelled from the spec: the Queue Engine (\<open>RedisQueue\<close>, redis-queue.ts), which is
  not among the sources.  The definitions follow section 4.1 of the specification word by
  word; time stamps (\<open>lastSeenAt\<close>) and the missing sub-queue are left out, since no
  property stated here reads them.  The digest of a payload is the payload itself.
\<close>

datatype listing_state = Discovered | Queued | Processing | Processed | Failed | Missing | Inactive

record 'raw queue_store =
  lstate :: "string \<Rightarrow> listing_state option"
  retryCount :: "string \<Rightarrow> nat"
  workQueue :: "string list"
  snapshot :: "string \<Rightarrow> 'raw option"

text \<open>An id is known when it is in any state but \<open>inactive\<close>.\<close>

definition known :: "'raw queue_store \<Rightarrow> string \<Rightarrow> bool" where
  "known q lid = (case lstate q lid of None \<Rightarrow> False | Some st \<Rightarrow> st \<noteq> Inactive)"

text \<open>
  \<open>admit\<close>: ``if \<open>id\<close> is already known (in any non-inactive state) this is a no-op
  returning \<open>admitted=false\<close>; otherwise the id is created in \<open>discovered\<close> state and
  pushed to the work queue, returning \<open>true\<close>''.
\<close>

definition admit :: "string \<Rightarrow> 'raw queue_store \<Rightarrow> bool \<times> 'raw queue_store" where
  "admit lid q =
     (if known q lid then (False, q)
      else (True, q\<lparr> lstate := (lstate q)(lid \<mapsto> Discovered),
                     workQueue := workQueue q @ [lid] \<rparr>))"

text \<open>A sequence of \<open>admit\<close> calls, with the answer of each.\<close>

fun admit_all :: "string list \<Rightarrow> 'raw queue_store \<Rightarrow> bool list \<times> 'raw queue_store" where
  "admit_all [] q = ([], q)"
| "admit_all (lid # lids) q =
     (case admit lid q of (a, q1) \<Rightarrow>
        (case admit_all lids q1 of (as, q2) \<Rightarrow> (a # as, q2)))"

text \<open>
  \<open>claim\<close>: ``pops exactly one id and transitions it to \<open>processing\<close>''; none when the
  wait times out, which a sequential caller sees exactly when the queue is empty.
\<close>

definition claim :: "'raw queue_store \<Rightarrow> string option \<times> 'raw queue_store" where
  "claim q =
     (case workQueue q of
        [] \<Rightarrow> (None, q)
      | lid # rest \<Rightarrow> (Some lid, q\<lparr> workQueue := rest, lstate := (lstate q)(lid \<mapsto> Processing) \<rparr>))"

definition engine_isProcessed :: "'raw queue_store \<Rightarrow> string \<Rightarrow> bool" where
  "engine_isProcessed q lid = (lstate q lid = Some Processed)"

text \<open>
  \<open>recordChangeAndMaybeUpdate\<close>: ``if different (or absent), overwrites the snapshot and
  returns \<open>changed=true\<close>; otherwise leaves the snapshot untouched and returns \<open>false\<close>''.
  The worker makes it in two calls, the comparison and the overwrite.
\<close>

definition engine_hasPropertyChanged :: "'raw queue_store \<Rightarrow> string \<Rightarrow> 'raw \<Rightarrow> bool" where
  "engine_hasPropertyChanged q lid payload = (snapshot q lid \<noteq> Some payload)"

definition engine_storePropertySnapshot :: "string \<Rightarrow> 'raw \<Rightarrow> 'raw queue_store \<Rightarrow> 'raw queue_store" where
  "engine_storePropertySnapshot lid payload q = q\<lparr> snapshot := (snapshot q)(lid \<mapsto> payload) \<rparr>"

definition recordChangeAndMaybeUpdate ::
  "string \<Rightarrow> 'raw \<Rightarrow> 'raw queue_store \<Rightarrow> bool \<times> 'raw queue_store" where
  "recordChangeAndMaybeUpdate lid payload q =
     (if engine_hasPropertyChanged q lid payload
      then (True, engine_storePropertySnapshot lid payload q)
      else (False, q))"

definition engine_markProcessed :: "string \<Rightarrow> 'raw queue_store \<Rightarrow> 'raw queue_store" where
  "engine_markProcessed lid q = q\<lparr> lstate := (lstate q)(lid \<mapsto> Processed) \<rparr>"

definition engine_markFailed :: "string \<Rightarrow> string \<Rightarrow> 'raw queue_store \<Rightarrow> 'raw queue_store" where
  "engine_markFailed lid reason q = q\<lparr> lstate := (lstate q)(lid \<mapsto> Failed) \<rparr>"

text \<open>
  \<open>requeueWithRetry\<close>: ``Increments \<open>retryCount\<close>; if the new count is still
  \<open>\<le> maxRetries\<close>, pushes the id back onto the work queue (state \<open>queued\<close>) and returns
  \<open>true\<close>; otherwise transitions to terminal \<open>failed\<close> and returns \<open>false\<close>''.
\<close>

definition engine_requeueWithRetry ::
  "string \<Rightarrow> nat \<Rightarrow> 'raw queue_store \<Rightarrow> bool \<times> 'raw queue_store" where
  "engine_requeueWithRetry lid maxRetries q =
     (let n = retryCount q lid + 1;
          q1 = q\<lparr> retryCount := (retryCount q)(lid := n) \<rparr>
      in if n \<le> maxRetries
         then (True, q1\<lparr> workQueue := workQueue q1 @ [lid], lstate := (lstate q1)(lid \<mapsto> Queued) \<rparr>)
         else (False, q1\<lparr> lstate := (lstate q1)(lid \<mapsto> Failed) \<rparr>))"

text \<open>
  The worker's world when the queue is this engine and the store is always reachable.
  The fetch, the downstream post, the reading of the fetched object and the API key stay
  parameters.
\<close>

definition engine_env ::
  "(string \<Rightarrow> 'raw hit list option outcome) \<Rightarrow> ('raw IngestionPayload \<Rightarrow> unit outcome)
    \<Rightarrow> ('raw property \<Rightarrow> ZillowRawProperty option) \<Rightarrow> bool \<Rightarrow> ('raw queue_store, 'raw) env" where
  "engine_env fetch send view key =
     \<lparr> isProcessed = (\<lambda>lid q. (Returns (engine_isProcessed q lid), q)),
       markFailed = (\<lambda>lid reason q. (Returns (), engine_markFailed lid reason q)),
       hasPropertyChanged = (\<lambda>lid payload q. (Returns (engine_hasPropertyChanged q lid payload), q)),
       storePropertySnapshot = (\<lambda>lid payload q. (Returns (), engine_storePropertySnapshot lid payload q)),
       markProcessed = (\<lambda>lid q. (Returns (), engine_markProcessed lid q)),
       requeueWithRetry = (\<lambda>lid maxRetries q.
          case engine_requeueWithRetry lid maxRetries q of (b, q') \<Rightarrow> (Returns b, q')),
       popListingId = (\<lambda>timeout q. case claim q of (r, q') \<Rightarrow> (Returns r, q')),
       queue_getStats = (\<lambda>q. (Returns (), q)),
       queue_close = (\<lambda>q. (Returns (), q)),
       axios_get = (\<lambda>lid q. (fetch lid, q)),
       axios_post = (\<lambda>payload q. (send payload, q)),
       randomDelay = (\<lambda>lo hi q. q),
       stopRequested = (\<lambda>q. False),
       asZillowRaw = view,
       apiKey = key,
       requestDelayMs = 2000 \<rparr>"

text \<open>\<open>n\<close> passes of the worker's loop body, one after the other.\<close>

fun passes ::
  "('w, 'raw) env \<Rightarrow> nat \<Rightarrow> nat \<times> ('w, 'raw) worker \<Rightarrow> nat \<times> ('w, 'raw) worker" where
  "passes env 0 cs = cs"
| "passes env (Suc n) cs = passes env n (snd (iteration env cs))"

text \<open>The requeue calls of a trace, in order.\<close>

fun requeue_results :: "'raw event list \<Rightarrow> (string \<times> nat \<times> bool outcome) list" where
  "requeue_results [] = []"
| "requeue_results (Ev_requeueWithRetry lid n r # evs) = (lid, n, r) # requeue_results evs"
| "requeue_results (ev # evs) = requeue_results evs"

text \<open>An id was taken up for processing: the worker asked whether it is processed.\<close>

fun is_attempt :: "string \<Rightarrow> 'raw event \<Rightarrow> bool" where
  "is_attempt lid (Ev_isProcessed i r) = (i = lid)"
| "is_attempt lid _ = False"

definition attempts :: "string \<Rightarrow> 'raw event list \<Rightarrow> nat" where
  "attempts lid evs = length (filter (is_attempt lid) evs)"

text \<open>An engine that has just admitted \<open>A1\<close>, and a worker on it.\<close>

definition empty_store :: "string queue_store" where
  "empty_store = \<lparr> lstate = (\<lambda>_. None), retryCount = (\<lambda>_. 0), workQueue = [],
                   snapshot = (\<lambda>_. None) \<rparr>"

definition store_A1 :: "string queue_store" where
  "store_A1 = snd (admit ''A1'' empty_store)"

definition engine_worker :: "string queue_store \<Rightarrow> (string queue_store, string) worker" where
  "engine_worker q = \<lparr> world = q, trace = [], isRunning = True, processedCount = 0,
                        failedCount = 0, changedCount = 0, unchangedCount = 0 \<rparr>"

definition failing_engine_env :: "(string queue_store, string) env" where
  "failing_engine_env =
     engine_env (\<lambda>_. Throws ''timeout'') (\<lambda>_. Returns ()) (\<lambda>_. Some raw0) True"

text \<open>The engine after a worker claimed the head of the queue and requeued it with the limit 3.\<close>

definition after_failure :: "string \<Rightarrow> 'raw queue_store \<Rightarrow> 'raw queue_store" where
  "after_failure lid q = snd (engine_requeueWithRetry lid 3 (snd (claim q)))"

text \<open>The events of one loop pass over an id whose fetch raises \<open>e\<close> and whose requeue
  returns \<open>b\<close>.\<close>

definition failed_pass_events :: "string \<Rightarrow> string \<Rightarrow> bool \<Rightarrow> 'raw event list" where
  "failed_pass_events lid e b =
     [Ev_popListingId 5 (Returns (Some lid)), Ev_isProcessed lid (Returns False),
      Ev_axios_get lid (Throws e), Ev_requeueWithRetry lid 3 (Returns b),
      Ev_randomDelay 1200 3200]"


section \<open>The geographic grid (coordinator, \<open>generateGrid\<close>)\<close>

text \<open>
  Coordinates are JavaScript numbers; they are modelled as rationals, so the arithmetic of the
  loops is exact.  A viewport has the four edges of the source's \<open>viewport\<close> objects; the
  constant \<open>BRAZIL_BOUNDS\<close> has the same four fields.
\<close>

record viewport =
  north :: rat
  south :: rat
  east :: rat
  west :: rat

record grid_cell =
  cell_lat :: rat
  cell_lng :: rat
  cell_viewport :: viewport
  cell_index :: nat
  cell_total :: int


text \<open>The object pushed by the loop body; \<open>index\<close> is the value after \<open>++index\<close>.\<close>

definition make_cell :: "rat \<Rightarrow> int \<Rightarrow> rat \<Rightarrow> rat \<Rightarrow> nat \<Rightarrow> grid_cell" where
  "make_cell gridSize totalCells latv lngv index =
     \<lparr> cell_lat = latv + gridSize / 2, cell_lng = lngv + gridSize / 2,
       cell_viewport = \<lparr> north = latv + gridSize, south = latv, east = lngv + gridSize, west = lngv \<rparr>,
       cell_index = index, cell_total = totalCells \<rparr>"

text \<open>
  The inner loop \<open>for (lng = west; lng < east; lng += gridSize)\<close> and the outer loop
  \<open>for (lat = south; lat < north; lat += gridSize)\<close>.  Nothing in the source bounds the
  number of rounds, so both are partial: \<open>None\<close> is a loop that does not come to an end.
\<close>

partial_function (option) lng_loop ::
  "viewport \<Rightarrow> rat \<Rightarrow> int \<Rightarrow> rat \<Rightarrow> rat \<Rightarrow> nat \<Rightarrow> grid_cell list
     \<Rightarrow> (grid_cell list \<times> nat) option" where
  "lng_loop bounds gridSize totalCells latv lngv index cells =
     (if lngv < east bounds
      then lng_loop bounds gridSize totalCells latv (lngv + gridSize) (index + 1)
             (cells @ [make_cell gridSize totalCells latv lngv (index + 1)])
      else Some (cells, index))"






text \<open>The cells one round of the outer loop adds, when the first has index \<open>i + 1\<close>.\<close>

definition grid_row :: "viewport \<Rightarrow> rat \<Rightarrow> int \<Rightarrow> rat \<Rightarrow> nat \<Rightarrow> grid_cell list" where
  "grid_row b g t latv i =
     map (\<lambda>k. make_cell g t latv (west b + of_nat k * g) (i + k + 1))
       [0..<nat \<lceil>(east b - west b) / g\<rceil>]"


section \<open>Properties of the transformer\<close>

lemma includes_iff_sublist: "str_includes s sub \<longleftrightarrow> sublist sub s"
proof (induction s)
  case Nil
  show ?case by simp
next
  case (Cons c cs)
  have "prefix sub (c # cs) \<longleftrightarrow> take (length sub) (c # cs) = sub"
    by (metis append_eq_conv_conj prefix_def)
  with Cons show ?case
    by (simp only: str_includes.simps sublist_Cons_right)
qed

lemma contains_ci_iff:
  "contains_ci s w \<longleftrightarrow> (\<exists>ps m ss. s = ps @ m @ ss \<and> length m = length w
                                \<and> toLowerCase m = toLowerCase w)"
proof (induction s)
  case Nil
  show ?case by (auto simp: toLowerCase_def)
next
  case (Cons c cs)
  show ?case (is "?L \<longleftrightarrow> ?R")
  proof
    assume ?L
    then consider (here) "toLowerCase (take (length w) (c # cs)) = toLowerCase w"
      | (later) "contains_ci cs w" by auto
    then show ?R
    proof cases
      case here
      then have len: "length (take (length w) (c # cs)) = length w"
        by (metis length_map toLowerCase_def)
      have "c # cs = [] @ take (length w) (c # cs) @ drop (length w) (c # cs)" by simp
      with here len show ?thesis by blast
    next
      case later
      with Cons obtain ps m ss where "cs = ps @ m @ ss" "length m = length w"
        "toLowerCase m = toLowerCase w" by blast
      then have "c # cs = (c # ps) @ m @ ss" by simp
      with \<open>length m = length w\<close> \<open>toLowerCase m = toLowerCase w\<close> show ?thesis by blast
    qed
  next
    assume ?R
    then obtain ps m ss where eq: "c # cs = ps @ m @ ss" and len: "length m = length w"
      and low: "toLowerCase m = toLowerCase w" by blast
    show ?L
    proof (cases ps)
      case Nil
      with eq len have "take (length w) (c # cs) = m" by simp
      with low show ?thesis by simp
    next
      case (Cons p ps')
      with eq have "cs = ps' @ m @ ss" by simp
      with len low Cons.IH have "contains_ci cs w" by blast
      then show ?thesis by simp
    qed
  qed
qed

lemma str_includes_toLowerCase:
  assumes w: "toLowerCase w = w"
  shows "str_includes (toLowerCase s) w = contains_ci s w"
proof (induction s)
  case Nil
  show ?case by (simp add: toLowerCase_def)
next
  case (Cons c cs)
  have window: "take (length w) (toLowerCase (c # cs)) = toLowerCase (take (length w) (c # cs))"
    by (simp only: toLowerCase_def take_map)
  have "str_includes (toLowerCase (c # cs)) w
          \<longleftrightarrow> take (length w) (toLowerCase (c # cs)) = w \<or> str_includes (toLowerCase cs) w"
    by (simp add: toLowerCase_def)
  also have "\<dots> \<longleftrightarrow> toLowerCase (take (length w) (c # cs)) = toLowerCase w \<or> contains_ci cs w"
    by (simp only: window w Cons.IH)
  finally show ?case by simp
qed

lemma toLowerCase_rent: "toLowerCase ''rent'' = ''rent''"
  by (simp add: toLowerCase_def lower_char_def)

text \<open>
  C10.  For every raw property, \<open>transformToStandard\<close> returns a record whose currency is
  \<open>USD\<close> and whose \<open>location.country\<close> is \<open>united states\<close>; its transaction type is
  \<open>rent\<close> exactly when the input has a truthy \<open>rentPrice\<close> or \<open>rentZestimate\<close>, or a
  \<open>listingStatus\<close> that contains \<open>rent\<close> case-insensitively, and \<open>sale\<close> otherwise.
\<close>

theorem transformToStandard_currency_country_transaction:
  "currency (transformToStandard raw) = ''USD''
   \<and> country (sp_location (transformToStandard raw)) = ''united states''
   \<and> transaction_type (transformToStandard raw) =
       (if truthy_opt (rentPrice raw) \<or> truthy_opt (rentZestimate raw)
           \<or> status_contains_rent raw
        then rent else sale)"
proof -
  have "getTransactionType raw =
          (if truthy_opt (rentPrice raw) \<or> truthy_opt (rentZestimate raw)
              \<or> status_contains_rent raw
           then rent else sale)"
    by (simp add: getTransactionType_def status_contains_rent_def
          str_includes_toLowerCase [OF toLowerCase_rent] split: option.splits)
  then show ?thesis
    by (simp add: transformToStandard_def Let_def)
qed

section \<open>Every execution of \<open>processListing\<close> is one of its runs\<close>

lemma advance_sel [simp]:
  "world (advance s w evs du dc dp df) = w"
  "trace (advance s w evs du dc dp df) = trace s @ evs"
  "isRunning (advance s w evs du dc dp df) = isRunning s"
  "unchangedCount (advance s w evs du dc dp df) = unchangedCount s + du"
  "changedCount (advance s w evs du dc dp df) = changedCount s + dc"
  "processedCount (advance s w evs du dc dp df) = processedCount s + dp"
  "failedCount (advance s w evs du dc dp df) = failedCount s + df"
  by (simp_all add: advance_def)

lemma advance_advance [simp]:
  "advance (advance s w evs du dc dp df) w' evs' du' dc' dp' df' =
     advance s w' (evs @ evs') (du + du') (dc + dc') (dp + dp') (df + df')"
  by (simp add: advance_def add.assoc)

lemma new_events_advance [simp]: "new_events s (advance s w evs du dc dp df) = evs"
  by (simp add: new_events_def)

lemma call_advance:
  "call ev f s = (case f (world s) of (r, w') \<Rightarrow> (r, advance s w' [ev r] 0 0 0 0))"
  by (simp add: call_def advance_def)

lemma count_advance:
  "s\<lparr>unchangedCount := unchangedCount s + 1\<rparr> = advance s (world s) [] 1 0 0 0"
  "s\<lparr>changedCount := changedCount s + 1\<rparr> = advance s (world s) [] 0 1 0 0"
  "s\<lparr>processedCount := processedCount s + 1\<rparr> = advance s (world s) [] 0 0 1 0"
  "s\<lparr>failedCount := failedCount s + 1\<rparr> = advance s (world s) [] 0 0 0 1"
  by (simp_all add: advance_def)

lemmas run_defs = ret_def throw_def modify_def bind_action_def try_catch_def call_advance
  count_advance

lemma advance_id [simp]: "advance s (world s) [] 0 0 0 0 = s"
  by (simp add: advance_def)

lemma bind_ret [simp]: "bind_action (ret a) k = k a"
  by (rule ext) (simp add: bind_action_def ret_def)

lemma bind_throw [simp]: "bind_action (throw e) k = throw e"
  by (rule ext) (simp add: bind_action_def throw_def)

lemma bind_Returns: "m s = (Returns a, s1) \<Longrightarrow> bind_action m k s = k a s1"
  by (simp add: bind_action_def)

lemma bind_Throws: "m s = (Throws e, s1) \<Longrightarrow> bind_action m k s = (Throws e, s1)"
  by (simp add: bind_action_def)

lemma call_cases:
  obtains (returns) a w where "f (world s) = (Returns a, w)"
      "call ev f s = (Returns a, advance s w [ev (Returns a)] 0 0 0 0)"
    | (raises) e w where "f (world s) = (Throws e, w)"
      "call ev f s = (Throws e, advance s w [ev (Throws e)] 0 0 0 0)"
proof -
  obtain r w where c: "f (world s) = (r, w)" by fastforce
  show ?thesis
  proof (cases r)
    case (Returns a)
    with c show ?thesis by (intro returns [of a w]) (simp_all add: call_advance)
  next
    case (Throws e)
    with c show ?thesis by (intro raises [of e w]) (simp_all add: call_advance)
  qed
qed

lemma count_steps:
  "modify (\<lambda>s. s\<lparr>unchangedCount := unchangedCount s + 1\<rparr>) s = (Returns (), advance s (world s) [] 1 0 0 0)"
  "modify (\<lambda>s. s\<lparr>changedCount := changedCount s + 1\<rparr>) s = (Returns (), advance s (world s) [] 0 1 0 0)"
  "modify (\<lambda>s. s\<lparr>processedCount := processedCount s + 1\<rparr>) s = (Returns (), advance s (world s) [] 0 0 1 0)"
  "modify (\<lambda>s. s\<lparr>failedCount := failedCount s + 1\<rparr>) s = (Returns (), advance s (world s) [] 0 0 0 1)"
  by (simp_all add: modify_def count_advance)

lemma count_steps_Suc:
  "modify (\<lambda>s. s\<lparr>unchangedCount := Suc (unchangedCount s)\<rparr>) s = (Returns (), advance s (world s) [] 1 0 0 0)"
  "modify (\<lambda>s. s\<lparr>changedCount := Suc (changedCount s)\<rparr>) s = (Returns (), advance s (world s) [] 0 1 0 0)"
  "modify (\<lambda>s. s\<lparr>processedCount := Suc (processedCount s)\<rparr>) s = (Returns (), advance s (world s) [] 0 0 1 0)"
  "modify (\<lambda>s. s\<lparr>failedCount := Suc (failedCount s)\<rparr>) s = (Returns (), advance s (world s) [] 0 0 0 1)"
  using count_steps [of s] by simp_all

lemma send_cases:
  obtains (no_key) "\<not> apiKey env"
      "(if apiKey env then sendToCoreService env pl else ret ()) s = (Returns (), s)"
    | (sent) r w where "apiKey env"
      "(if apiKey env then sendToCoreService env pl else ret ()) s
         = (r, advance s w [Ev_axios_post pl r] 0 0 0 0)"
proof (cases "apiKey env")
  case False
  then show ?thesis by (intro no_key) (simp_all add: ret_def)
next
  case True
  show ?thesis
  proof (cases rule: call_cases [of "axios_post env pl" s "Ev_axios_post pl"])
    case (returns a w)
    with True show ?thesis
      by (intro sent [of "Returns a" w]) (simp_all add: sendToCoreService_def try_catch_def)
  next
    case (raises e w)
    with True show ?thesis
      by (intro sent [of "Throws e" w]) (simp_all add: sendToCoreService_def try_catch_def throw_def)
  qed
qed

lemma forward_changed_run:
  fixes env :: "('w, 'raw) env" and s :: "('w, 'raw) worker"
  assumes run: "forward_changed env lid p s = (r, s')"
  shows "\<exists>w evs dc. forward_run env lid p r evs dc \<and> s' = advance s w evs 0 dc 0 0"
proof (cases "asZillowRaw env p")
  case None
  with run have "r = Throws ''TypeError''" "s' = advance s (world s) [] 0 0 0 0"
    by (simp_all add: forward_changed_def transform_property_def throw_def)
  with None show ?thesis using F_transform_raises by blast
next
  case (Some z)
  define pl where "pl = active_payload p (transformToStandard z)"
  define send where "send = (if apiKey env then sendToCoreService env pl else ret ())"
  define store :: "(unit, 'w, 'raw) wk"
    where "store = call (Ev_storePropertySnapshot lid (rawData p))
                     (storePropertySnapshot env lid (rawData p))"
  define count :: "(unit, 'w, 'raw) wk"
    where "count = modify (\<lambda>s. s\<lparr>changedCount := changedCount s + 1\<rparr>)"
  have fc: "forward_changed env lid p =
              bind_action send (\<lambda>_. bind_action store (\<lambda>_. count))"
    using Some
    by (simp add: forward_changed_def transform_property_def send_def store_def count_def
          pl_def split del: if_split cong: if_cong)
  have post_run: "forward_run env lid p (Throws e) [Ev_axios_post pl (Throws e)] 0" if "apiKey env" for e
    unfolding pl_def by (rule F_post_raises [OF Some that])
  define sevs where "sevs = (if apiKey env then [Ev_axios_post pl (Returns ())] else [])"
  have store_run: "forward_run env lid p (Throws e)
       (sevs @ [Ev_storePropertySnapshot lid (rawData p) (Throws e)]) 0" for e
    unfolding pl_def sevs_def by (rule F_store_raises [OF Some])
  have ok_run: "forward_run env lid p (Returns ())
       (sevs @ [Ev_storePropertySnapshot lid (rawData p) (Returns ())]) 1"
    unfolding pl_def sevs_def by (rule F_stored [OF Some])
  have after_send: ?thesis if sent: "send s = (Returns (), advance s w sevs 0 0 0 0)" for w
  proof (cases rule: call_cases [of "storePropertySnapshot env lid (rawData p)" "advance s w sevs 0 0 0 0"
        "Ev_storePropertySnapshot lid (rawData p)"])
    case (returns a w')
    with sent run have "r = Returns ()"
      "s' = advance s w' (sevs @ [Ev_storePropertySnapshot lid (rawData p) (Returns ())]) 0 1 0 0"
      by (auto simp: fc bind_Returns [where m = send, OF sent] store_def [symmetric]
            bind_Returns [where m = store] count_def count_steps_Suc)
    with ok_run show ?thesis by blast
  next
    case (raises e w')
    with sent run have "r = Throws e"
      "s' = advance s w' (sevs @ [Ev_storePropertySnapshot lid (rawData p) (Throws e)]) 0 0 0 0"
      by (auto simp: fc bind_Returns [where m = send, OF sent] store_def [symmetric]
            bind_Throws [where m = store])
    with store_run show ?thesis by blast
  qed
  show ?thesis
  proof (cases rule: send_cases [of env pl s])
    case no_key
    then have "send s = (Returns (), advance s (world s) sevs 0 0 0 0)"
      by (simp add: send_def sevs_def)
    then show ?thesis by (rule after_send)
  next
    case (sent r1 w)
    show ?thesis
    proof (cases r1)
      case (Returns u)
      with sent have "send s = (Returns (), advance s w sevs 0 0 0 0)"
        by (simp add: send_def sevs_def)
      then show ?thesis by (rule after_send)
    next
      case (Throws e)
      with sent have "send s = (Throws e, advance s w [Ev_axios_post pl (Throws e)] 0 0 0 0)"
        by (simp add: send_def)
      with run have "r = Throws e" "s' = advance s w [Ev_axios_post pl (Throws e)] 0 0 0 0"
        by (auto simp: fc bind_Throws [where m = send])
      with post_run [OF sent(1)] show ?thesis by blast
    qed
  qed
qed

lemma bind_eval: "m s = (Returns a, s1) \<Longrightarrow> k a s1 = res \<Longrightarrow> bind_action m k s = res"
  by (simp add: bind_action_def)

lemma finish_cases:
  fixes env :: "('w, 'raw) env" and s :: "('w, 'raw) worker" and lid :: string
  defines "finish \<equiv> bind_action (call (Ev_markProcessed lid) (markProcessed env lid)) (\<lambda>_.
             bind_action (modify (\<lambda>s. s\<lparr>processedCount := processedCount s + 1\<rparr>)) (\<lambda>_.
             ret True))"
  obtains (returns) w where
      "finish s = (Returns True, advance s w [Ev_markProcessed lid (Returns ())] 0 0 1 0)"
    | (raises) e w where
      "finish s = (Throws e, advance s w [Ev_markProcessed lid (Throws e)] 0 0 0 0)"
proof (cases rule: call_cases [of "markProcessed env lid" s "Ev_markProcessed lid"])
  case (returns a w)
  have "finish s = (Returns True, advance s w [Ev_markProcessed lid (Returns ())] 0 0 1 0)"
    unfolding finish_def
    by (simp add: bind_action_def returns(2) count_steps count_steps_Suc ret_def)
  then show ?thesis by (rule that(1))
next
  case (raises e w)
  have "finish s = (Throws e, advance s w [Ev_markProcessed lid (Throws e)] 0 0 0 0)"
    unfolding finish_def by (simp add: bind_action_def raises(2))
  then show ?thesis by (rule that(2))
qed

lemma rawData_property_of_hit [simp]: "rawData (property_of_hit h) = hit_source h"
  by (simp add: property_of_hit_def)

lemma processListing_found_run:
  fixes env :: "('w, 'raw) env" and s :: "('w, 'raw) worker" and lid :: string
  defines "pre \<equiv> \<lambda>h hs. [Ev_isProcessed lid (Returns False), Ev_axios_get lid (Returns (Some (h # hs)))]"
  assumes run: "processListing_found env lid (property_of_hit h) (advance s w0 (pre h hs) 0 0 0 0) = (r, s')"
  shows "\<exists>w evs du dc dp. try_run env lid r evs du dc dp \<and> s' = advance s w evs du dc dp 0"
proof -
  define p where "p = property_of_hit h"
  define s0 where "s0 = advance s w0 (pre h hs) 0 0 0 0"
  define finish :: "(bool, 'w, 'raw) wk" where
    "finish = bind_action (call (Ev_markProcessed lid) (markProcessed env lid)) (\<lambda>_.
             bind_action (modify (\<lambda>s. s\<lparr>processedCount := processedCount s + 1\<rparr>)) (\<lambda>_.
             ret True))"
  define check :: "(bool, 'w, 'raw) wk" where
    "check = call (Ev_hasPropertyChanged lid (hit_source h)) (hasPropertyChanged env lid (hit_source h))"
  define branch :: "bool \<Rightarrow> (unit, 'w, 'raw) wk" where
    "branch = (\<lambda>hasChanged. if \<not> hasChanged
        then modify (\<lambda>s. s\<lparr>unchangedCount := unchangedCount s + 1\<rparr>)
        else forward_changed env lid p)"
  define hc where "hc = (\<lambda>c. Ev_hasPropertyChanged lid (hit_source h) c)"
  have found: "processListing_found env lid p = bind_action check (\<lambda>c. bind_action (branch c) (\<lambda>_. finish))"
    by (simp add: processListing_found_def check_def branch_def finish_def p_def
          split del: if_split cong: if_cong)
  have run': "bind_action check (\<lambda>c. bind_action (branch c) (\<lambda>_. finish)) s0 = (r, s')"
    using run by (simp only: found [symmetric] p_def s0_def)
  show ?thesis
  proof (cases rule: call_cases [of "hasPropertyChanged env lid (hit_source h)" s0
        "Ev_hasPropertyChanged lid (hit_source h)"])
    case (raises e w)
    from raises(2) [folded check_def] run'
    have "(r, s') = (Throws e, advance s0 w [hc (Throws e)] 0 0 0 0)"
      by (auto simp: hc_def bind_action_def)
    then have "r = Throws e" "s' = advance s w (pre h hs @ [hc (Throws e)]) 0 0 0 0"
      by (simp_all add: s0_def)
    with T_hasPropertyChanged_raises [of env lid e h hs] show ?thesis
      unfolding pre_def hc_def by (simp del: advance_advance) blast
  next
    case (returns c w)
    define s1 where "s1 = advance s0 w [hc (Returns c)] 0 0 0 0"
    have s1: "s1 = advance s w (pre h hs @ [hc (Returns c)]) 0 0 0 0"
      by (simp add: s1_def s0_def)
    have "bind_action check (\<lambda>c. bind_action (branch c) (\<lambda>_. finish)) s0
            = bind_action (branch c) (\<lambda>_. finish) s1"
      using returns(2) [folded check_def] by (simp add: s1_def hc_def bind_action_def)
    with run' have run1: "bind_action (branch c) (\<lambda>_. finish) s1 = (r, s')" by simp
    show ?thesis
    proof (cases c)
      case False
      then have b: "branch c s1 = (Returns (), advance s1 (world s1) [] 1 0 0 0)"
        by (simp add: branch_def count_steps_Suc)
      show ?thesis
      proof (cases rule: finish_cases [where env = env and lid = lid and s = "advance s1 (world s1) [] 1 0 0 0"])
        case (returns w')
        from b returns [folded finish_def] run1
        have "(r, s') = (Returns True, advance (advance s1 (world s1) [] 1 0 0 0) w' [Ev_markProcessed lid (Returns ())] 0 0 1 0)"
          by (auto simp: bind_action_def)
        then have "r = Returns True"
          "s' = advance s w' (pre h hs @ [hc (Returns False), Ev_markProcessed lid (Returns ())]) 1 0 1 0"
          by (simp_all add: s1 False)
        with T_unchanged [of env lid h hs] show ?thesis
          unfolding pre_def hc_def by (simp del: advance_advance) blast
      next
        case (raises e w')
        from b raises [folded finish_def] run1
        have "(r, s') = (Throws e, advance (advance s1 (world s1) [] 1 0 0 0) w' [Ev_markProcessed lid (Throws e)] 0 0 0 0)"
          by (auto simp: bind_action_def)
        then have "r = Throws e"
          "s' = advance s w' (pre h hs @ [hc (Returns False), Ev_markProcessed lid (Throws e)]) 1 0 0 0"
          by (simp_all add: s1 False)
        with T_unchanged_markProcessed_raises [of env lid e h hs] show ?thesis
          unfolding pre_def hc_def by (simp del: advance_advance) blast
      qed
    next
      case True
      obtain r2 s2 where fwd: "forward_changed env lid p s1 = (r2, s2)" by fastforce
      from forward_changed_run [OF fwd] obtain w2 fevs dc where
        frun: "forward_run env lid (property_of_hit h) r2 fevs dc" and s2: "s2 = advance s1 w2 fevs 0 dc 0 0"
        unfolding p_def by blast
      from fwd True have b: "branch c s1 = (r2, s2)" by (simp add: branch_def)
      define evs where "evs = [Ev_isProcessed lid (Returns False), Ev_axios_get lid (Returns (Some (h # hs))),
         Ev_hasPropertyChanged lid (hit_source h) (Returns True)] @ fevs"
      have s2': "s2 = advance s w2 evs 0 dc 0 0"
        by (simp add: s2 s1 evs_def pre_def hc_def True)
      show ?thesis
      proof (cases r2)
        case (Throws e)
        from b [unfolded Throws] run1 have "(r, s') = (Throws e, s2)" by (auto simp: bind_action_def)
        then have "r = Throws e" "s' = advance s w2 evs 0 dc 0 0" by (simp_all add: s2')
        with T_forward_raises [of env lid h e fevs dc hs] frun Throws show ?thesis
          unfolding evs_def by blast
      next
        case (Returns u)
        with frun have frun': "forward_run env lid (property_of_hit h) (Returns ()) fevs dc" by simp
        from Returns b have b': "branch c s1 = (Returns (), s2)" by simp
        show ?thesis
        proof (cases rule: finish_cases [where env = env and lid = lid and s = s2])
          case (returns w')
          from b' returns [folded finish_def] run1
          have "(r, s') = (Returns True, advance s2 w' [Ev_markProcessed lid (Returns ())] 0 0 1 0)"
            by (auto simp: bind_action_def)
          then have "r = Returns True"
            "s' = advance s w' (evs @ [Ev_markProcessed lid (Returns ())]) 0 dc 1 0"
            by (simp_all add: s2')
          with T_changed [OF frun', of hs] show ?thesis unfolding evs_def append_assoc by blast
        next
          case (raises e w')
          from b' raises [folded finish_def] run1
          have "(r, s') = (Throws e, advance s2 w' [Ev_markProcessed lid (Throws e)] 0 0 0 0)"
            by (auto simp: bind_action_def)
          then have "r = Throws e"
            "s' = advance s w' (evs @ [Ev_markProcessed lid (Throws e)]) 0 dc 0 0"
            by (simp_all add: s2')
          with T_changed_markProcessed_raises [OF frun', of e hs] show ?thesis
            unfolding evs_def append_assoc by blast
        qed
      qed
    qed
  qed
qed

lemma fetch_cases:
  fixes env :: "('w, 'raw) env" and s :: "('w, 'raw) worker"
  obtains (raises) e w where
      "fetchPropertyDetail env lid s
         = (Throws (''Fetch failed: '' @ e), advance s w [Ev_axios_get lid (Throws e)] 0 0 0 0)"
    | (not_found) hits w where "hits = None \<or> hits = Some []"
      "fetchPropertyDetail env lid s
         = (Returns None, advance s w [Ev_axios_get lid (Returns hits)] 0 0 0 0)"
    | (found) h hs w where
      "fetchPropertyDetail env lid s
         = (Returns (Some (property_of_hit h)),
            advance s w [Ev_axios_get lid (Returns (Some (h # hs)))] 0 0 0 0)"
proof (cases rule: call_cases [of "axios_get env lid" s "Ev_axios_get lid"])
  case (raises e w)
  then have "fetchPropertyDetail env lid s
         = (Throws (''Fetch failed: '' @ e), advance s w [Ev_axios_get lid (Throws e)] 0 0 0 0)"
    by (simp add: fetchPropertyDetail_def try_catch_def bind_action_def throw_def)
  then show ?thesis by (rule that(1))
next
  case (returns hits w)
  then have eq: "fetchPropertyDetail env lid s
         = (Returns (case hits of None \<Rightarrow> None | Some [] \<Rightarrow> None | Some (h # _) \<Rightarrow> Some (property_of_hit h)),
            advance s w [Ev_axios_get lid (Returns hits)] 0 0 0 0)"
    by (simp add: fetchPropertyDetail_def try_catch_def bind_action_def ret_def)
  show ?thesis
  proof (cases hits)
    case None
    with eq show ?thesis by (intro that(2) [of hits w]) simp_all
  next
    case (Some xs)
    show ?thesis
    proof (cases xs)
      case Nil
      with Some eq show ?thesis by (intro that(2) [of hits w]) simp_all
    next
      case (Cons h hs)
      with Some eq show ?thesis by (intro that(3) [of h w hs]) simp_all
    qed
  qed
qed

lemma processListing_try_run:
  fixes env :: "('w, 'raw) env" and s :: "('w, 'raw) worker"
  assumes run: "processListing_try env lid s = (r, s')"
  shows "\<exists>w evs du dc dp. try_run env lid r evs du dc dp \<and> s' = advance s w evs du dc dp 0"
proof -
  define check :: "(bool, 'w, 'raw) wk" where
    "check = call (Ev_isProcessed lid) (isProcessed env lid)"
  define fetch :: "('raw property option, 'w, 'raw) wk" where
    "fetch = fetchPropertyDetail env lid"
  define mark :: "(unit, 'w, 'raw) wk" where
    "mark = call (Ev_markFailed lid ''Not found'') (markFailed env lid ''Not found'')"
  define rest :: "'raw property option \<Rightarrow> (bool, 'w, 'raw) wk" where
    "rest = (\<lambda>property. case property of
           None \<Rightarrow> bind_action mark (\<lambda>_. ret False)
         | Some p \<Rightarrow> processListing_found env lid p)"
  have body: "processListing_try env lid =
      bind_action check (\<lambda>isProc. if isProc then ret True else bind_action fetch rest)"
    unfolding processListing_try_def check_def fetch_def rest_def mark_def by (rule refl)
  show ?thesis
  proof (cases rule: call_cases [of "isProcessed env lid" s "Ev_isProcessed lid"])
    case (raises e w)
    from raises(2) [folded check_def] run
    have "(r, s') = (Throws e, advance s w [Ev_isProcessed lid (Throws e)] 0 0 0 0)"
      by (auto simp: body bind_action_def)
    with T_isProcessed_raises [of env lid e] show ?thesis by simp blast
  next
    case (returns isProc w)
    show ?thesis
    proof (cases isProc)
      case True
      from returns(2) [folded check_def] run True
      have "(r, s') = (Returns True, advance s w [Ev_isProcessed lid (Returns True)] 0 0 0 0)"
        by (auto simp: body bind_action_def ret_def)
      with T_skipped [of env lid] show ?thesis by simp blast
    next
      case False
      define s1 where "s1 = advance s w [Ev_isProcessed lid (Returns False)] 0 0 0 0"
      from returns(2) [folded check_def] run False
      have run1: "bind_action fetch rest s1 = (r, s')"
        by (auto simp: body bind_action_def s1_def)
      show ?thesis
      proof (cases rule: fetch_cases [of env lid s1])
        case (raises e w')
        from raises [folded fetch_def] run1
        have "(r, s') = (Throws (''Fetch failed: '' @ e), advance s1 w' [Ev_axios_get lid (Throws e)] 0 0 0 0)"
          by (auto simp: bind_action_def)
        then have "r = Throws (''Fetch failed: '' @ e)"
          "s' = advance s w' [Ev_isProcessed lid (Returns False), Ev_axios_get lid (Throws e)] 0 0 0 0"
          by (simp_all add: s1_def)
        with T_fetch_raises [of env lid e] show ?thesis by blast
      next
        case (not_found hits w')
        define s2 where "s2 = advance s1 w' [Ev_axios_get lid (Returns hits)] 0 0 0 0"
        from not_found(2) [folded fetch_def] run1
        have run2: "bind_action mark (\<lambda>_. ret False) s2 = (r, s')"
          by (auto simp: bind_action_def rest_def s2_def)
        show ?thesis
        proof (cases rule: call_cases [of "markFailed env lid ''Not found''" s2 "Ev_markFailed lid ''Not found''"])
          case (returns u w'')
          from returns(2) [folded mark_def] run2
          have "(r, s') = (Returns False, advance s2 w'' [Ev_markFailed lid ''Not found'' (Returns ())] 0 0 0 0)"
            by (auto simp: bind_action_def ret_def)
          then have "r = Returns False"
            "s' = advance s w'' [Ev_isProcessed lid (Returns False), Ev_axios_get lid (Returns hits),
                     Ev_markFailed lid ''Not found'' (Returns ())] 0 0 0 0"
            by (simp_all add: s2_def s1_def)
          with T_not_found [OF not_found(1), of env lid] show ?thesis by blast
        next
          case (raises e w'')
          from raises(2) [folded mark_def] run2
          have "(r, s') = (Throws e, advance s2 w'' [Ev_markFailed lid ''Not found'' (Throws e)] 0 0 0 0)"
            by (auto simp: bind_action_def)
          then have "r = Throws e"
            "s' = advance s w'' [Ev_isProcessed lid (Returns False), Ev_axios_get lid (Returns hits),
                     Ev_markFailed lid ''Not found'' (Throws e)] 0 0 0 0"
            by (simp_all add: s2_def s1_def)
          with T_markFailed_raises [OF not_found(1), of env lid e] show ?thesis by blast
        qed
      next
        case (found h hs w')
        from found [folded fetch_def] run1
        have "processListing_found env lid (property_of_hit h)
                (advance s1 w' [Ev_axios_get lid (Returns (Some (h # hs)))] 0 0 0 0) = (r, s')"
          by (auto simp: bind_action_def rest_def)
        then have "processListing_found env lid (property_of_hit h)
                (advance s w' [Ev_isProcessed lid (Returns False),
                               Ev_axios_get lid (Returns (Some (h # hs)))] 0 0 0 0) = (r, s')"
          by (simp add: s1_def)
        then show ?thesis by (rule processListing_found_run)
      qed
    qed
  qed
qed

text \<open>Every execution of \<open>processListing\<close> is one of the runs, with the counters moved as the run says.\<close>

lemma processListing_run:
  fixes env :: "('w, 'raw) env" and s :: "('w, 'raw) worker"
  assumes run: "processListing env lid s = (r, s')"
  shows "\<exists>w evs du dc dp df. listing_run env lid r evs du dc dp df
           \<and> s' = advance s w evs du dc dp df"
proof -
  obtain r1 s1 where t: "processListing_try env lid s = (r1, s1)" by fastforce
  from processListing_try_run [OF t] obtain w1 evs du dc dp where
    trun: "try_run env lid r1 evs du dc dp" and s1: "s1 = advance s w1 evs du dc dp 0" by blast
  show ?thesis
  proof (cases r1)
    case (Returns b)
    with t run have "(r, s') = (Returns b, s1)"
      by (auto simp: processListing_def try_catch_def)
    with L_returned [of env lid b evs du dc dp] trun Returns s1 show ?thesis by simp blast
  next
    case (Throws e)
    with t run have catch: "processListing_catch env lid e s1 = (r, s')"
      by (auto simp: processListing_def try_catch_def)
    from trun Throws have trun': "try_run env lid (Throws e) evs du dc dp" by simp
    show ?thesis
    proof (cases rule: call_cases [of "requeueWithRetry env lid 3" s1 "Ev_requeueWithRetry lid 3"])
      case (raises e' w)
      with catch have "(r, s') = (Throws e', advance s1 w [Ev_requeueWithRetry lid 3 (Throws e')] 0 0 0 0)"
        by (auto simp: processListing_catch_def bind_action_def)
      then have "r = Throws e'" "s' = advance s w (evs @ [Ev_requeueWithRetry lid 3 (Throws e')]) du dc dp 0"
        by (simp_all add: s1)
      with L_requeue_raises [OF trun', of e'] show ?thesis by blast
    next
      case (returns requeued w)
      show ?thesis
      proof (cases requeued)
        case True
        with returns catch
        have "(r, s') = (Returns False, advance s1 w [Ev_requeueWithRetry lid 3 (Returns True)] 0 0 0 0)"
          by (auto simp: processListing_catch_def bind_action_def ret_def)
        then have "r = Returns False"
          "s' = advance s w (evs @ [Ev_requeueWithRetry lid 3 (Returns True)]) du dc dp 0"
          by (simp_all add: s1)
        with L_requeued [OF trun'] show ?thesis by blast
      next
        case False
        with returns catch
        have "(r, s') = (Returns False, advance s1 w [Ev_requeueWithRetry lid 3 (Returns False)] 0 0 0 1)"
          by (auto simp: processListing_catch_def bind_action_def ret_def count_steps count_steps_Suc)
        then have "r = Returns False"
          "s' = advance s w (evs @ [Ev_requeueWithRetry lid 3 (Returns False)]) du dc dp 1"
          by (simp_all add: s1)
        with L_retries_exhausted [OF trun'] show ?thesis by blast
      qed
    qed
  qed
qed

section \<open>Properties of \<open>processListing\<close>\<close>

lemmas obs_defs = forwarded_def forward_returned_def snapshot_stored_def
  snapshot_store_returned_def marked_processed_def markProcessed_raised_def marked_failed_def
  requeued_def requeued_with_def fetch_raised_def forward_raised_def not_found_def

lemma forward_run_obs:
  assumes "forward_run env lid p r fevs dc"
  shows "(forwarded fevs \<longleftrightarrow> apiKey env \<and> asZillowRaw env p \<noteq> None)
       \<and> (snapshot_stored lid fevs \<longleftrightarrow> asZillowRaw env p \<noteq> None \<and> (apiKey env \<longrightarrow> forward_returned fevs))
       \<and> (snapshot_store_returned lid fevs \<longleftrightarrow> r = Returns ())
       \<and> \<not> marked_processed lid fevs \<and> \<not> requeued lid fevs \<and> \<not> marked_failed lid fevs
       \<and> \<not> fetch_raised lid fevs \<and> \<not> not_found lid fevs
       \<and> \<not> markProcessed_raised fevs
       \<and> (\<forall>i raw c. Ev_hasPropertyChanged i raw c \<notin> set fevs)
       \<and> (\<forall>i g. Ev_axios_get i g \<notin> set fevs)
       \<and> (\<forall>i c. Ev_isProcessed i c \<notin> set fevs)
       \<and> (\<forall>i n ro. Ev_requeueWithRetry i n ro \<notin> set fevs) \<and> \<not> requeued_with lid n fevs
       \<and> (\<forall>i reason u. Ev_markFailed i reason u \<notin> set fevs)
       \<and> (\<forall>i u. Ev_markProcessed i u \<notin> set fevs)
       \<and> (forward_raised fevs \<longrightarrow> r \<noteq> Returns ())
       \<and> (dc = (if r = Returns () then 1 else 0))"
  using assms by cases (auto simp: obs_defs)

lemma obs_append [simp]:
  "forwarded (xs @ ys) \<longleftrightarrow> forwarded xs \<or> forwarded ys"
  "forward_returned (xs @ ys) \<longleftrightarrow> forward_returned xs \<or> forward_returned ys"
  "snapshot_stored lid (xs @ ys) \<longleftrightarrow> snapshot_stored lid xs \<or> snapshot_stored lid ys"
  "snapshot_store_returned lid (xs @ ys) \<longleftrightarrow> snapshot_store_returned lid xs \<or> snapshot_store_returned lid ys"
  "marked_processed lid (xs @ ys) \<longleftrightarrow> marked_processed lid xs \<or> marked_processed lid ys"
  "markProcessed_raised (xs @ ys) \<longleftrightarrow> markProcessed_raised xs \<or> markProcessed_raised ys"
  "marked_failed lid (xs @ ys) \<longleftrightarrow> marked_failed lid xs \<or> marked_failed lid ys"
  "requeued lid (xs @ ys) \<longleftrightarrow> requeued lid xs \<or> requeued lid ys"
  "requeued_with lid n (xs @ ys) \<longleftrightarrow> requeued_with lid n xs \<or> requeued_with lid n ys"
  "fetch_raised lid (xs @ ys) \<longleftrightarrow> fetch_raised lid xs \<or> fetch_raised lid ys"
  "forward_raised (xs @ ys) \<longleftrightarrow> forward_raised xs \<or> forward_raised ys"
  "not_found lid (xs @ ys) \<longleftrightarrow> not_found lid xs \<or> not_found lid ys"
  by (simp_all add: obs_defs)

lemma obs_Cons [simp]:
  "forwarded (x # xs) \<longleftrightarrow> is_post x \<or> forwarded xs"
  "forward_returned (x # xs) \<longleftrightarrow> is_post_returned x \<or> forward_returned xs"
  "snapshot_stored lid (x # xs) \<longleftrightarrow> is_store lid x \<or> snapshot_stored lid xs"
  "snapshot_store_returned lid (x # xs) \<longleftrightarrow> is_store_returned lid x \<or> snapshot_store_returned lid xs"
  "marked_processed lid (x # xs) \<longleftrightarrow> is_markProcessed lid x \<or> marked_processed lid xs"
  "markProcessed_raised (x # xs) \<longleftrightarrow> is_markProcessed_raised x \<or> markProcessed_raised xs"
  "marked_failed lid (x # xs) \<longleftrightarrow> is_markFailed lid x \<or> marked_failed lid xs"
  "requeued lid (x # xs) \<longleftrightarrow> is_requeue lid x \<or> requeued lid xs"
  "requeued_with lid n (x # xs) \<longleftrightarrow> is_requeue_with lid n x \<or> requeued_with lid n xs"
  "fetch_raised lid (x # xs) \<longleftrightarrow> is_get_raised lid x \<or> fetch_raised lid xs"
  "forward_raised (x # xs) \<longleftrightarrow> is_post_raised x \<or> forward_raised xs"
  "not_found lid (x # xs) \<longleftrightarrow> is_not_found lid x \<or> not_found lid xs"
  by (simp_all add: obs_defs)

lemma obs_Nil [simp]:
  "\<not> forwarded []" "\<not> forward_returned []" "\<not> snapshot_stored lid []"
  "\<not> snapshot_store_returned lid []" "\<not> marked_processed lid []" "\<not> markProcessed_raised []"
  "\<not> marked_failed lid []" "\<not> requeued lid []" "\<not> requeued_with lid n []"
  "\<not> fetch_raised lid []" "\<not> forward_raised []" "\<not> not_found lid []"
  by (simp_all add: obs_defs)

lemma try_run_found:
  assumes "try_run env lid r evs du dc dp"
    and "Ev_axios_get lid (Returns (Some (h # hs))) \<in> set evs"
  shows "found_obs env lid h evs"
  using assms
proof cases
  case (T_forward_raises h' e fevs hs')
  from forward_run_obs [OF \<open>forward_run env lid (property_of_hit h') (Throws e) fevs dc\<close>]
    T_forward_raises assms(2) show ?thesis
    by (auto simp: found_obs_def)
next
  case (T_changed h' fevs hs')
  from forward_run_obs [OF \<open>forward_run env lid (property_of_hit h') (Returns ()) fevs dc\<close>]
    T_changed assms(2) show ?thesis
    by (auto simp: found_obs_def)
next
  case (T_changed_markProcessed_raises h' fevs hs' e)
  from forward_run_obs [OF \<open>forward_run env lid (property_of_hit h') (Returns ()) fevs dc\<close>]
    T_changed_markProcessed_raises assms(2) show ?thesis
    by (auto simp: found_obs_def)
qed (auto simp: found_obs_def)

lemma found_obs_requeue:
  "found_obs env lid h (evs @ [Ev_requeueWithRetry lid' n ro]) = found_obs env lid h evs"
  by (simp add: found_obs_def)

lemma processListing_found_obs:
  assumes run: "processListing env lid s = (r, s')"
    and fetched: "Ev_axios_get lid (Returns (Some (h # hs))) \<in> set (new_events s s')"
  shows "found_obs env lid h (new_events s s')"
proof -
  from processListing_run [OF run] obtain w evs du dc dp df where
    lr: "listing_run env lid r evs du dc dp df" and s': "s' = advance s w evs du dc dp df"
    by blast
  from fetched have f: "Ev_axios_get lid (Returns (Some (h # hs))) \<in> set evs"
    by (simp add: s')
  from lr f have "found_obs env lid h evs"
    by cases (auto simp: found_obs_requeue intro: try_run_found)
  then show ?thesis by (simp add: s')
qed

lemma try_run_errors:
  assumes "try_run env lid r evs du dc dp"
  shows "\<not> requeued lid evs \<and> \<not> requeued_with lid n evs
       \<and> (\<forall>ro. Ev_requeueWithRetry lid 3 ro \<notin> set evs)
       \<and> (not_found lid evs \<longrightarrow> marked_failed lid evs
            \<and> (Ev_markFailed lid ''Not found'' (Returns ()) \<in> set evs \<longrightarrow> r = Returns False))
       \<and> (fetch_raised lid evs \<or> forward_raised evs \<longrightarrow> (\<exists>e. r = Throws e))"
  using assms
proof cases
  case (T_forward_raises h e fevs hs)
  from forward_run_obs [OF \<open>forward_run env lid (property_of_hit h) (Throws e) fevs dc\<close>]
    T_forward_raises show ?thesis
    by (auto simp: no_hit_def obs_defs)
next
  case (T_changed h fevs hs)
  from forward_run_obs [OF \<open>forward_run env lid (property_of_hit h) (Returns ()) fevs dc\<close>]
    T_changed show ?thesis
    by (auto simp: no_hit_def obs_defs)
next
  case (T_changed_markProcessed_raises h fevs hs e)
  from forward_run_obs [OF \<open>forward_run env lid (property_of_hit h) (Returns ()) fevs dc\<close>]
    T_changed_markProcessed_raises show ?thesis
    by (auto simp: no_hit_def obs_defs)
qed (auto simp: no_hit_def)

lemma try_run_counters:
  assumes "try_run env lid r evs du dc dp"
  shows "(\<not> markProcessed_raised evs \<longrightarrow> dp = dc + du)
       \<and> (r = Returns True \<longrightarrow> \<not> markProcessed_raised evs)
       \<and> (Ev_isProcessed lid (Returns True) \<in> set evs \<or> not_found lid evs
            \<longrightarrow> du = 0 \<and> dc = 0 \<and> dp = 0)"
  using assms
proof cases
  case (T_forward_raises h e fevs hs)
  from forward_run_obs [OF \<open>forward_run env lid (property_of_hit h) (Throws e) fevs dc\<close>]
    T_forward_raises show ?thesis
    by (auto simp: no_hit_def)
next
  case (T_changed h fevs hs)
  from forward_run_obs [OF \<open>forward_run env lid (property_of_hit h) (Returns ()) fevs dc\<close>]
    T_changed show ?thesis
    by (auto simp: no_hit_def)
next
  case (T_changed_markProcessed_raises h fevs hs e)
  from forward_run_obs [OF \<open>forward_run env lid (property_of_hit h) (Returns ()) fevs dc\<close>]
    T_changed_markProcessed_raises show ?thesis
    by (auto simp: no_hit_def)
qed (auto simp: no_hit_def)


subsection \<open>Example runs\<close>

lemmas run_unfold = processListing_def processListing_try_def processListing_catch_def
  processListing_found_def forward_changed_def fetchPropertyDetail_def sendToCoreService_def
  transform_property_def bind_action_def try_catch_def ret_def throw_def modify_def call_def

lemmas example_defs = quiet_env_def no_key_env_def unchanged_env_def gone_store_down_env_def
  gone_env_def fetch_fails_env_def unchanged_store_down_env_def all_down_env_def
  already_processed_env_def worker0_def hit0_def new_events_def property_of_hit_def

lemma run_quiet:
  "processListing quiet_env ''A1'' worker0 =
     (Returns True,
      worker0\<lparr>trace := [Ev_isProcessed ''A1'' (Returns False),
        Ev_axios_get ''A1'' (Returns (Some [hit0])),
        Ev_hasPropertyChanged ''A1'' ''{price:100}'' (Returns True),
        Ev_axios_post (active_payload (property_of_hit hit0) (transformToStandard raw0)) (Returns ()),
        Ev_storePropertySnapshot ''A1'' ''{price:100}'' (Returns ()),
        Ev_markProcessed ''A1'' (Returns ())], processedCount := 1, changedCount := 1\<rparr>)"
  by (simp add: run_unfold example_defs)

lemma run_no_key:
  "processListing no_key_env ''A1'' worker0 =
     (Returns True,
      worker0\<lparr>trace := [Ev_isProcessed ''A1'' (Returns False),
        Ev_axios_get ''A1'' (Returns (Some [hit0])),
        Ev_hasPropertyChanged ''A1'' ''{price:100}'' (Returns True),
        Ev_storePropertySnapshot ''A1'' ''{price:100}'' (Returns ()),
        Ev_markProcessed ''A1'' (Returns ())], processedCount := 1, changedCount := 1\<rparr>)"
  by (simp add: run_unfold example_defs)

lemma run_unchanged:
  "processListing unchanged_env ''A1'' worker0 =
     (Returns True,
      worker0\<lparr>trace := [Ev_isProcessed ''A1'' (Returns False),
        Ev_axios_get ''A1'' (Returns (Some [hit0])),
        Ev_hasPropertyChanged ''A1'' ''{price:100}'' (Returns False),
        Ev_markProcessed ''A1'' (Returns ())], processedCount := 1, unchangedCount := 1\<rparr>)"
  by (simp add: run_unfold example_defs)

lemma run_gone_store_down:
  "processListing gone_store_down_env ''A1'' worker0 =
     (Returns False,
      worker0\<lparr>trace := [Ev_isProcessed ''A1'' (Returns False),
        Ev_axios_get ''A1'' (Returns (Some [])),
        Ev_markFailed ''A1'' ''Not found'' (Throws ''store unavailable''),
        Ev_requeueWithRetry ''A1'' 3 (Returns True)]\<rparr>)"
  by (simp add: run_unfold example_defs)

lemma run_gone:
  "processListing gone_env ''A1'' worker0 =
     (Returns False,
      worker0\<lparr>trace := [Ev_isProcessed ''A1'' (Returns False),
        Ev_axios_get ''A1'' (Returns (Some [])),
        Ev_markFailed ''A1'' ''Not found'' (Returns ())]\<rparr>)"
  by (simp add: run_unfold example_defs)

lemma run_fetch_fails:
  "processListing fetch_fails_env ''A1'' worker0 =
     (Returns False,
      worker0\<lparr>trace := [Ev_isProcessed ''A1'' (Returns False),
        Ev_axios_get ''A1'' (Throws ''timeout''),
        Ev_requeueWithRetry ''A1'' 3 (Returns False)], failedCount := 1\<rparr>)"
  by (simp add: run_unfold example_defs)

lemma run_all_down:
  "processListing all_down_env ''A1'' worker0 =
     (Throws ''store unavailable'',
      worker0\<lparr>trace := [Ev_isProcessed ''A1'' (Returns False),
        Ev_axios_get ''A1'' (Throws ''timeout''),
        Ev_requeueWithRetry ''A1'' 3 (Throws ''store unavailable'')]\<rparr>)"
  by (simp add: run_unfold example_defs)

lemma run_already_processed:
  "processListing already_processed_env ''A1'' worker0 =
     (Returns True, worker0\<lparr>trace := [Ev_isProcessed ''A1'' (Returns True)]\<rparr>)"
  by (simp add: run_unfold example_defs)

lemma run_unchanged_store_down:
  "processListing unchanged_store_down_env ''A1'' worker0 =
     (Returns False,
      worker0\<lparr>trace := [Ev_isProcessed ''A1'' (Returns False),
        Ev_axios_get ''A1'' (Returns (Some [hit0])),
        Ev_hasPropertyChanged ''A1'' ''{price:100}'' (Returns False),
        Ev_markProcessed ''A1'' (Throws ''store unavailable''),
        Ev_requeueWithRetry ''A1'' 3 (Returns True)], unchangedCount := 1\<rparr>)"
  by (simp add: run_unfold example_defs)

lemma worker0_simps:
  "trace worker0 = []" "processedCount worker0 = 0" "changedCount worker0 = 0"
  "unchangedCount worker0 = 0" "failedCount worker0 = 0"
  by (simp_all add: worker0_def)

lemmas example_runs = run_quiet run_no_key run_unchanged run_gone_store_down run_gone
  run_fetch_fails run_all_down run_already_processed run_unchanged_store_down

subsection \<open>Forwarding and the snapshot\<close>

text \<open>
  C1, as the code has it.  For every id whose fetch returns a property: when change
  detection reports the payload unchanged, the worker posts nothing downstream, stores no
  snapshot and calls \<open>markProcessed\<close>; when it reports the payload changed, the worker
  posts the record exactly when an API key is configured and the transform returned,
  stores the snapshot exactly when the transform returned and the post, if there was one,
  returned, and calls \<open>markProcessed\<close> exactly when the snapshot store returned.
\<close>

theorem processListing_forwards_changed_only:
  assumes "processListing env lid s = (r, s')"
    and "Ev_axios_get lid (Returns (Some (h # hs))) \<in> set (new_events s s')"
  shows "(Ev_hasPropertyChanged lid (hit_source h) (Returns False) \<in> set (new_events s s') \<longrightarrow>
            \<not> forwarded (new_events s s') \<and> \<not> snapshot_stored lid (new_events s s')
          \<and> marked_processed lid (new_events s s'))
       \<and> (Ev_hasPropertyChanged lid (hit_source h) (Returns True) \<in> set (new_events s s') \<longrightarrow>
            (forwarded (new_events s s') \<longleftrightarrow>
               apiKey env \<and> asZillowRaw env (property_of_hit h) \<noteq> None)
          \<and> (snapshot_stored lid (new_events s s') \<longleftrightarrow>
               asZillowRaw env (property_of_hit h) \<noteq> None
               \<and> (apiKey env \<longrightarrow> forward_returned (new_events s s')))
          \<and> (marked_processed lid (new_events s s') \<longleftrightarrow>
               snapshot_store_returned lid (new_events s s')))"
  using processListing_found_obs [OF assms] unfolding found_obs_def .

theorem processListing_forwards_changed_only_witness:
  "fst (processListing quiet_env ''A1'' worker0) = Returns True
   \<and> Ev_axios_get ''A1'' (Returns (Some [hit0]))
        \<in> set (new_events worker0 (snd (processListing quiet_env ''A1'' worker0)))
   \<and> Ev_hasPropertyChanged ''A1'' (hit_source hit0) (Returns True)
        \<in> set (new_events worker0 (snd (processListing quiet_env ''A1'' worker0)))
   \<and> forwarded (new_events worker0 (snd (processListing quiet_env ''A1'' worker0)))
   \<and> snapshot_stored ''A1'' (new_events worker0 (snd (processListing quiet_env ''A1'' worker0)))
   \<and> marked_processed ''A1'' (new_events worker0 (snd (processListing quiet_env ''A1'' worker0)))
   \<and> fst (processListing unchanged_env ''A1'' worker0) = Returns True
   \<and> Ev_hasPropertyChanged ''A1'' (hit_source hit0) (Returns False)
        \<in> set (new_events worker0 (snd (processListing unchanged_env ''A1'' worker0)))
   \<and> \<not> forwarded (new_events worker0 (snd (processListing unchanged_env ''A1'' worker0)))
   \<and> \<not> snapshot_stored ''A1'' (new_events worker0 (snd (processListing unchanged_env ''A1'' worker0)))
   \<and> marked_processed ''A1'' (new_events worker0 (snd (processListing unchanged_env ''A1'' worker0)))"
proof -
  have r1: "processListing quiet_env ''A1'' worker0
              = (fst (processListing quiet_env ''A1'' worker0), snd (processListing quiet_env ''A1'' worker0))"
    by simp
  have vr1: "fst (processListing quiet_env ''A1'' worker0) = Returns True"
    by (simp add: run_quiet)
  have f1: "Ev_axios_get ''A1'' (Returns (Some (hit0 # [])))
              \<in> set (new_events worker0 (snd (processListing quiet_env ''A1'' worker0)))"
    by (simp add: run_quiet new_events_def worker0_simps)
  have r2: "processListing unchanged_env ''A1'' worker0
              = (fst (processListing unchanged_env ''A1'' worker0), snd (processListing unchanged_env ''A1'' worker0))"
    by simp
  have vr2: "fst (processListing unchanged_env ''A1'' worker0) = Returns True"
    by (simp add: run_unchanged)
  have f2: "Ev_axios_get ''A1'' (Returns (Some (hit0 # [])))
              \<in> set (new_events worker0 (snd (processListing unchanged_env ''A1'' worker0)))"
    by (simp add: run_unchanged new_events_def worker0_simps)
  have key: "apiKey quiet_env" "asZillowRaw quiet_env (property_of_hit hit0) \<noteq> None"
    by (simp_all add: quiet_env_def)
  have c1: "Ev_hasPropertyChanged ''A1'' (hit_source hit0) (Returns True)
              \<in> set (new_events worker0 (snd (processListing quiet_env ''A1'' worker0)))"
    by (simp add: run_quiet new_events_def worker0_simps hit0_def)
  have c2: "Ev_hasPropertyChanged ''A1'' (hit_source hit0) (Returns False)
              \<in> set (new_events worker0 (snd (processListing unchanged_env ''A1'' worker0)))"
    by (simp add: run_unchanged new_events_def worker0_simps hit0_def)
  have post: "forward_returned (new_events worker0 (snd (processListing quiet_env ''A1'' worker0)))"
    by (simp add: run_quiet new_events_def worker0_simps)
  have stored: "snapshot_store_returned ''A1''
                  (new_events worker0 (snd (processListing quiet_env ''A1'' worker0)))"
    by (simp add: run_quiet new_events_def worker0_simps)
  from processListing_forwards_changed_only [OF r1 f1]
       processListing_forwards_changed_only [OF r2 f2] vr1 vr2 f1 c1 c2 key post stored
  show ?thesis by simp
qed

theorem forwards_iff_changed_counterexample:
  "Ev_axios_get ''A1'' (Returns (Some [hit0]))
     \<in> set (new_events worker0 (snd (processListing no_key_env ''A1'' worker0)))
   \<and> Ev_hasPropertyChanged ''A1'' (hit_source hit0) (Returns True)
        \<in> set (new_events worker0 (snd (processListing no_key_env ''A1'' worker0)))
   \<and> snapshot_stored ''A1'' (new_events worker0 (snd (processListing no_key_env ''A1'' worker0)))
   \<and> marked_processed ''A1'' (new_events worker0 (snd (processListing no_key_env ''A1'' worker0)))
   \<and> \<not> forwarded (new_events worker0 (snd (processListing no_key_env ''A1'' worker0)))"
  by (simp add: run_no_key new_events_def worker0_simps hit0_def)

subsection \<open>Where errors go\<close>

text \<open>
  C4, as the code has it.  In one \<open>processListing\<close>: a fetch that reports not-found
  leads to \<open>markFailed\<close>, and when \<open>markFailed\<close> returns the id is not requeued and the
  step returns false; an exception raised by the fetch or by the forward leads to
  \<open>requeueWithRetry\<close> with the limit 3; and the step raises only the error that
  \<open>requeueWithRetry\<close> itself raised.
\<close>

theorem processListing_error_routes:
  assumes run: "processListing env lid s = (r, s')"
  shows "(not_found lid (new_events s s') \<longrightarrow>
            marked_failed lid (new_events s s')
          \<and> (Ev_markFailed lid ''Not found'' (Returns ()) \<in> set (new_events s s') \<longrightarrow>
               \<not> requeued lid (new_events s s') \<and> r = Returns False))
       \<and> (fetch_raised lid (new_events s s') \<or> forward_raised (new_events s s') \<longrightarrow>
            requeued_with lid 3 (new_events s s'))
       \<and> (\<forall>e. r = Throws e \<longrightarrow> Ev_requeueWithRetry lid 3 (Throws e) \<in> set (new_events s s'))"
proof -
  from processListing_run [OF run] obtain w evs du dc dp df where
    lr: "listing_run env lid r evs du dc dp df" and s': "s' = advance s w evs du dc dp df"
    by blast
  from lr have "(not_found lid evs \<longrightarrow>
            marked_failed lid evs
          \<and> (Ev_markFailed lid ''Not found'' (Returns ()) \<in> set evs \<longrightarrow>
               \<not> requeued lid evs \<and> r = Returns False))
       \<and> (fetch_raised lid evs \<or> forward_raised evs \<longrightarrow> requeued_with lid 3 evs)
       \<and> (\<forall>e. r = Throws e \<longrightarrow> Ev_requeueWithRetry lid 3 (Throws e) \<in> set evs)"
  proof cases
    case (L_returned b)
    note tr = \<open>try_run env lid (Returns b) evs du dc dp\<close>
    from try_run_errors [OF tr, of 3] L_returned show ?thesis by auto
  next
    case (L_requeued e evs0)
    note tr = \<open>try_run env lid (Throws e) evs0 du dc dp\<close>
    from try_run_errors [OF tr, of 3] L_requeued show ?thesis by auto
  next
    case (L_retries_exhausted e evs0)
    note tr = \<open>try_run env lid (Throws e) evs0 du dc dp\<close>
    from try_run_errors [OF tr, of 3] L_retries_exhausted show ?thesis by auto
  next
    case (L_requeue_raises e evs0 e')
    note tr = \<open>try_run env lid (Throws e) evs0 du dc dp\<close>
    from try_run_errors [OF tr, of 3] L_requeue_raises show ?thesis by auto
  qed
  then show ?thesis by (simp add: s')
qed

theorem processListing_error_routes_witness:
  "fst (processListing gone_env ''A1'' worker0) = Returns False
   \<and> not_found ''A1'' (new_events worker0 (snd (processListing gone_env ''A1'' worker0)))
   \<and> Ev_markFailed ''A1'' ''Not found'' (Returns ())
        \<in> set (new_events worker0 (snd (processListing gone_env ''A1'' worker0)))
   \<and> marked_failed ''A1'' (new_events worker0 (snd (processListing gone_env ''A1'' worker0)))
   \<and> \<not> requeued ''A1'' (new_events worker0 (snd (processListing gone_env ''A1'' worker0)))
   \<and> fetch_raised ''A1'' (new_events worker0 (snd (processListing fetch_fails_env ''A1'' worker0)))
   \<and> requeued_with ''A1'' 3 (new_events worker0 (snd (processListing fetch_fails_env ''A1'' worker0)))
   \<and> fst (processListing all_down_env ''A1'' worker0) = Throws ''store unavailable''
   \<and> Ev_requeueWithRetry ''A1'' 3 (Throws ''store unavailable'')
        \<in> set (new_events worker0 (snd (processListing all_down_env ''A1'' worker0)))"
proof -
  have r1: "processListing gone_env ''A1'' worker0
              = (fst (processListing gone_env ''A1'' worker0), snd (processListing gone_env ''A1'' worker0))"
    by simp
  have vr1: "fst (processListing gone_env ''A1'' worker0) = Returns False"
    by (simp add: run_gone)
  have r2: "processListing fetch_fails_env ''A1'' worker0
              = (fst (processListing fetch_fails_env ''A1'' worker0), snd (processListing fetch_fails_env ''A1'' worker0))"
    by simp
  have vr2: "fst (processListing fetch_fails_env ''A1'' worker0) = Returns False"
    by (simp add: run_fetch_fails)
  have r3: "processListing all_down_env ''A1'' worker0
              = (fst (processListing all_down_env ''A1'' worker0), snd (processListing all_down_env ''A1'' worker0))"
    by simp
  have vr3: "fst (processListing all_down_env ''A1'' worker0) = Throws ''store unavailable''"
    by (simp add: run_all_down)
  have h1: "not_found ''A1'' (new_events worker0 (snd (processListing gone_env ''A1'' worker0)))"
    "Ev_markFailed ''A1'' ''Not found'' (Returns ())
        \<in> set (new_events worker0 (snd (processListing gone_env ''A1'' worker0)))"
    by (simp_all add: run_gone new_events_def worker0_simps no_hit_def)
  have h2: "fetch_raised ''A1'' (new_events worker0 (snd (processListing fetch_fails_env ''A1'' worker0)))"
    by (simp add: run_fetch_fails new_events_def worker0_simps)
  from processListing_error_routes [OF r1] processListing_error_routes [OF r2]
       processListing_error_routes [OF r3] vr1 vr3 h1 h2
  show ?thesis by simp
qed

theorem not_found_never_requeued_counterexample:
  "not_found ''A1'' (new_events worker0 (snd (processListing gone_store_down_env ''A1'' worker0)))
   \<and> marked_failed ''A1'' (new_events worker0 (snd (processListing gone_store_down_env ''A1'' worker0)))
   \<and> requeued ''A1'' (new_events worker0 (snd (processListing gone_store_down_env ''A1'' worker0)))"
  by (simp add: run_gone_store_down new_events_def worker0_simps no_hit_def)

subsection \<open>The counters\<close>

text \<open>
  C9, as the code has it.  A \<open>processListing\<close> in which \<open>markProcessed\<close> did not raise,
  so every one that returns true, keeps \<open>processedCount = changedCount + unchangedCount\<close>;
  an id skipped as already processed and an id whose fetch reports not-found move none of
  the three counters; and \<open>failedCount\<close> goes up by one exactly when \<open>requeueWithRetry\<close>
  returned false.
\<close>

theorem processListing_counters:
  assumes run: "processListing env lid s = (r, s')"
  shows "(\<not> markProcessed_raised (new_events s s') \<longrightarrow>
            counters_balanced s \<longrightarrow> counters_balanced s')
       \<and> (r = Returns True \<longrightarrow> \<not> markProcessed_raised (new_events s s'))
       \<and> (Ev_isProcessed lid (Returns True) \<in> set (new_events s s') \<or> not_found lid (new_events s s')
            \<longrightarrow> processedCount s' = processedCount s \<and> changedCount s' = changedCount s
                \<and> unchangedCount s' = unchangedCount s)
       \<and> failedCount s' = failedCount s
            + (if Ev_requeueWithRetry lid 3 (Returns False) \<in> set (new_events s s') then 1 else 0)"
proof -
  from processListing_run [OF run] obtain w evs du dc dp df where
    lr: "listing_run env lid r evs du dc dp df" and s': "s' = advance s w evs du dc dp df"
    by blast
  from lr have "(\<not> markProcessed_raised evs \<longrightarrow> dp = dc + du)
       \<and> (r = Returns True \<longrightarrow> \<not> markProcessed_raised evs)
       \<and> (Ev_isProcessed lid (Returns True) \<in> set evs \<or> not_found lid evs
            \<longrightarrow> du = 0 \<and> dc = 0 \<and> dp = 0)
       \<and> df = (if Ev_requeueWithRetry lid 3 (Returns False) \<in> set evs then 1 else 0)"
  proof cases
    case (L_returned b)
    note tr = \<open>try_run env lid (Returns b) evs du dc dp\<close>
    from L_returned try_run_counters [OF tr] try_run_errors [OF tr, of 3]
    show ?thesis by auto
  next
    case (L_requeued e evs0)
    note tr = \<open>try_run env lid (Throws e) evs0 du dc dp\<close>
    from L_requeued try_run_counters [OF tr] try_run_errors [OF tr, of 3]
    show ?thesis by auto
  next
    case (L_retries_exhausted e evs0)
    note tr = \<open>try_run env lid (Throws e) evs0 du dc dp\<close>
    from L_retries_exhausted try_run_counters [OF tr] try_run_errors [OF tr, of 3]
    show ?thesis by auto
  next
    case (L_requeue_raises e evs0 e')
    note tr = \<open>try_run env lid (Throws e) evs0 du dc dp\<close>
    from L_requeue_raises try_run_counters [OF tr] try_run_errors [OF tr, of 3]
    show ?thesis by auto
  qed
  then show ?thesis by (auto simp: s' counters_balanced_def)
qed

theorem processListing_counters_witness:
  "fst (processListing quiet_env ''A1'' worker0) = Returns True
   \<and> counters_balanced worker0
   \<and> \<not> markProcessed_raised (new_events worker0 (snd (processListing quiet_env ''A1'' worker0)))
   \<and> counters_balanced (snd (processListing quiet_env ''A1'' worker0))
   \<and> Ev_isProcessed ''A1'' (Returns True)
        \<in> set (new_events worker0 (snd (processListing already_processed_env ''A1'' worker0)))
   \<and> processedCount (snd (processListing already_processed_env ''A1'' worker0)) = 0
   \<and> changedCount (snd (processListing already_processed_env ''A1'' worker0)) = 0
   \<and> unchangedCount (snd (processListing already_processed_env ''A1'' worker0)) = 0
   \<and> not_found ''A1'' (new_events worker0 (snd (processListing gone_env ''A1'' worker0)))
   \<and> processedCount (snd (processListing gone_env ''A1'' worker0)) = 0
   \<and> Ev_requeueWithRetry ''A1'' 3 (Returns False)
        \<in> set (new_events worker0 (snd (processListing fetch_fails_env ''A1'' worker0)))
   \<and> failedCount (snd (processListing fetch_fails_env ''A1'' worker0)) = 1"
proof -
  have r1: "processListing quiet_env ''A1'' worker0
              = (fst (processListing quiet_env ''A1'' worker0), snd (processListing quiet_env ''A1'' worker0))"
    by simp
  have vr1: "fst (processListing quiet_env ''A1'' worker0) = Returns True"
    by (simp add: run_quiet)
  have r2: "processListing already_processed_env ''A1'' worker0
              = (fst (processListing already_processed_env ''A1'' worker0), snd (processListing already_processed_env ''A1'' worker0))"
    by simp
  have vr2: "fst (processListing already_processed_env ''A1'' worker0) = Returns True"
    by (simp add: run_already_processed)
  have r3: "processListing gone_env ''A1'' worker0
              = (fst (processListing gone_env ''A1'' worker0), snd (processListing gone_env ''A1'' worker0))"
    by simp
  have vr3: "fst (processListing gone_env ''A1'' worker0) = Returns False"
    by (simp add: run_gone)
  have r4: "processListing fetch_fails_env ''A1'' worker0
              = (fst (processListing fetch_fails_env ''A1'' worker0), snd (processListing fetch_fails_env ''A1'' worker0))"
    by simp
  have vr4: "fst (processListing fetch_fails_env ''A1'' worker0) = Returns False"
    by (simp add: run_fetch_fails)
  have b0: "counters_balanced worker0" "processedCount worker0 = 0" "changedCount worker0 = 0"
    "unchangedCount worker0 = 0" "failedCount worker0 = 0"
    by (simp_all add: counters_balanced_def worker0_simps)
  have h2: "Ev_isProcessed ''A1'' (Returns True)
        \<in> set (new_events worker0 (snd (processListing already_processed_env ''A1'' worker0)))"
    by (simp add: run_already_processed new_events_def worker0_simps)
  have h3: "not_found ''A1'' (new_events worker0 (snd (processListing gone_env ''A1'' worker0)))"
    by (simp add: run_gone new_events_def worker0_simps no_hit_def)
  have h4: "Ev_requeueWithRetry ''A1'' 3 (Returns False)
        \<in> set (new_events worker0 (snd (processListing fetch_fails_env ''A1'' worker0)))"
    by (simp add: run_fetch_fails new_events_def worker0_simps)
  from processListing_counters [OF r1] processListing_counters [OF r2]
       processListing_counters [OF r3] processListing_counters [OF r4] vr1 b0 h2 h3 h4
  show ?thesis by simp
qed

theorem counters_balanced_counterexample:
  "counters_balanced worker0
   \<and> fst (processListing unchanged_store_down_env ''A1'' worker0) = Returns False
   \<and> processedCount (snd (processListing unchanged_store_down_env ''A1'' worker0)) = 0
   \<and> unchangedCount (snd (processListing unchanged_store_down_env ''A1'' worker0)) = 1
   \<and> \<not> counters_balanced (snd (processListing unchanged_store_down_env ''A1'' worker0))"
  by (simp add: run_unchanged_store_down counters_balanced_def worker0_simps)

section \<open>Properties of the main loop\<close>

lemma empty_streak_append [simp]:
  "empty_streak c (xs @ ys) = empty_streak (empty_streak c xs) ys"
  by (induction c xs rule: empty_streak.induct) simp_all

lemma iteration_raised_simps [simp]:
  "\<not> iteration_raised []"
  "iteration_raised (x # xs) \<longleftrightarrow> is_loop_raise x \<or> iteration_raised xs"
  "iteration_raised (xs @ ys) \<longleftrightarrow> iteration_raised xs \<or> iteration_raised ys"
  by (simp_all add: iteration_raised_def)

lemma claimed_simps [simp]:
  "\<not> claimed_an_id []"
  "claimed_an_id (x # xs) \<longleftrightarrow> is_claimed x \<or> claimed_an_id xs"
  "claimed_an_id (xs @ ys) \<longleftrightarrow> claimed_an_id xs \<or> claimed_an_id ys"
  by (simp_all add: claimed_an_id_def)






lemma stop_ran_simps [simp]:
  "\<not> stop_ran []"
  "stop_ran (x # xs) \<longleftrightarrow> is_close x \<or> stop_ran xs"
  "stop_ran (xs @ ys) \<longleftrightarrow> stop_ran xs \<or> stop_ran ys"
  by (simp_all add: stop_ran_def)









lemmas loop_unfold = start_def iteration_def iteration_try_def iteration_catch_def on_worker_def
  signals_def stop_def falsy_id_def maxEmptyChecks_def call_total_def









section \<open>Properties of the Queue Engine\<close>

lemma admit_known: "known q lid \<Longrightarrow> admit lid q = (False, q)"
  by (simp add: admit_def)

lemma admit_unknown:
  assumes "\<not> known q lid"
  shows "fst (admit lid q) = True" "known (snd (admit lid q)) lid"
    "workQueue (snd (admit lid q)) = workQueue q @ [lid]"
  using assms by (simp_all add: admit_def known_def)

lemma admit_other:
  assumes "lid' \<noteq> lid"
  shows "known (snd (admit lid' q)) lid = known q lid"
    "count_list (workQueue (snd (admit lid' q))) lid = count_list (workQueue q) lid"
  using assms by (simp_all add: admit_def known_def)

lemma admit_all_Cons:
  "admit_all (lid # lids) q =
     (fst (admit lid q) # fst (admit_all lids (snd (admit lid q))),
      snd (admit_all lids (snd (admit lid q))))"
  by (simp split: prod.split)

lemma admit_all_known:
  "known q lid \<Longrightarrow> admit_all (replicate n lid) q = (replicate n False, q)"
  by (induction n) (simp_all add: admit_known del: admit_all.simps(2) add: admit_all_Cons)

text \<open>
  C2.  Take an id the engine does not know yet (or knows as inactive) and call \<open>admit\<close>
  with it \<open>n \<ge> 1\<close> times.  The first call returns true, every later call returns false
  and leaves the engine as the first call left it, and the work queue has gained exactly
  one entry for the id.
\<close>

theorem admit_dedup:
  assumes "\<not> known q lid" and "0 < n"
  shows "admit_all (replicate n lid) q = (True # replicate (n - 1) False, snd (admit lid q))
       \<and> count_list (fst (admit_all (replicate n lid) q)) True = 1
       \<and> count_list (workQueue (snd (admit_all (replicate n lid) q))) lid
           = count_list (workQueue q) lid + 1"
proof -
  from \<open>0 < n\<close> obtain m where n: "n = Suc m" by (cases n) auto
  have rest: "admit_all (replicate m lid) (snd (admit lid q)) = (replicate m False, snd (admit lid q))"
    by (rule admit_all_known) (rule admit_unknown(2) [OF assms(1)])
  have all: "admit_all (replicate n lid) q = (True # replicate (n - 1) False, snd (admit lid q))"
    unfolding n by (simp add: admit_all_Cons rest admit_unknown(1) [OF assms(1)] del: admit_all.simps(2))
  moreover have "count_list (True # replicate (n - 1) False) True = 1"
    by (simp add: count_list_0_iff)
  ultimately show ?thesis
    by (simp add: admit_unknown(3) [OF assms(1)])
qed

theorem admit_dedup_witness:
  "\<not> known empty_store ''A1'' \<and> (0::nat) < 3
   \<and> admit_all (replicate 3 ''A1'') empty_store = ([True, False, False], store_A1)
   \<and> workQueue store_A1 = [''A1'']"
proof -
  have u: "\<not> known empty_store ''A1''" by (simp add: known_def empty_store_def)
  have w: "workQueue store_A1 = [''A1'']"
    by (simp add: store_A1_def admit_def known_def empty_store_def)
  from admit_dedup [OF u, of 3] u w show ?thesis
    by (simp add: store_A1_def numeral_3_eq_3)
qed

text \<open>The same with calls for other ids in between.\<close>

lemma admit_all_interleaved_known:
  "known q lid \<Longrightarrow>
     filter (\<lambda>(i, a). i = lid \<and> a) (zip lids (fst (admit_all lids q))) = []
   \<and> count_list (workQueue (snd (admit_all lids q))) lid = count_list (workQueue q) lid"
proof (induction lids arbitrary: q)
  case Nil
  then show ?case by simp
next
  case (Cons i lids)
  show ?case
  proof (cases "i = lid")
    case True
    with Cons.prems have "admit i q = (False, q)" by (simp add: admit_known)
    with Cons.IH [OF Cons.prems] True show ?thesis
      by (simp add: admit_all_Cons del: admit_all.simps(2))
  next
    case False
    have k: "known (snd (admit i q)) lid" using False Cons.prems by (simp add: admit_other)
    from Cons.IH [OF k] False show ?thesis
      by (simp add: admit_all_Cons admit_other del: admit_all.simps(2))
  qed
qed

lemma admit_all_interleaved:
  "\<not> known q lid \<Longrightarrow> lid \<in> set lids \<Longrightarrow>
     length (filter (\<lambda>(i, a). i = lid \<and> a) (zip lids (fst (admit_all lids q)))) = 1
   \<and> count_list (workQueue (snd (admit_all lids q))) lid = count_list (workQueue q) lid + 1"
proof (induction lids arbitrary: q)
  case Nil
  then show ?case by simp
next
  case (Cons i lids)
  show ?case
  proof (cases "i = lid")
    case True
    with Cons.prems have a: "fst (admit i q) = True" "known (snd (admit i q)) lid"
      "workQueue (snd (admit i q)) = workQueue q @ [lid]"
      by (simp_all add: admit_unknown)
    from admit_all_interleaved_known [OF a(2), of lids] a True show ?thesis
      by (simp add: admit_all_Cons del: admit_all.simps(2))
  next
    case False
    with Cons.prems have u: "\<not> known (snd (admit i q)) lid" "lid \<in> set lids"
      by (simp_all add: admit_other)
    from Cons.IH [OF u] False show ?thesis
      by (simp add: admit_all_Cons admit_other del: admit_all.simps(2))
  qed
qed

lemma claim_head:
  "workQueue q = lid # rest \<Longrightarrow>
     claim q = (Some lid, q\<lparr> workQueue := rest, lstate := (lstate q)(lid \<mapsto> Processing) \<rparr>)"
  by (simp add: claim_def)

lemma claim_empty: "workQueue q = [] \<Longrightarrow> claim q = (None, q)"
  by (simp add: claim_def)

lemma after_failure_retry:
  assumes "workQueue q = [lid]" and "retryCount q lid = k" and "k < 3"
  shows "workQueue (after_failure lid q) = [lid]" "retryCount (after_failure lid q) lid = k + 1"
    "lstate (after_failure lid q) lid = Some Queued"
    "fst (engine_requeueWithRetry lid 3 (snd (claim q)))"
  using assms by (simp_all add: after_failure_def claim_def engine_requeueWithRetry_def Let_def)

lemma after_failure_last:
  assumes "workQueue q = [lid]" and "retryCount q lid = 3"
  shows "workQueue (after_failure lid q) = []" "retryCount (after_failure lid q) lid = 4"
    "lstate (after_failure lid q) lid = Some Failed"
    "\<not> fst (engine_requeueWithRetry lid 3 (snd (claim q)))"
  using assms by (simp_all add: after_failure_def claim_def engine_requeueWithRetry_def Let_def)

lemma failing_pass:
  fixes s :: "('raw queue_store, 'raw) worker"
  assumes q: "workQueue (world s) = [lid]" and lid: "lid \<noteq> []" and f: "fetch lid = Throws e"
  shows "iteration (engine_env fetch send view key) (c, s) =
     (Returns Continue,
      (0, advance s (after_failure lid (world s))
            [Ev_popListingId 5 (Returns (Some lid)), Ev_isProcessed lid (Returns False),
             Ev_axios_get lid (Throws e),
             Ev_requeueWithRetry lid 3
               (Returns (fst (engine_requeueWithRetry lid 3 (snd (claim (world s)))))),
             Ev_randomDelay 1200 3200]
            0 0 0 (if fst (engine_requeueWithRetry lid 3 (snd (claim (world s)))) then 0 else 1)))"
proof -
  obtain b q' where rq: "engine_requeueWithRetry lid 3 (snd (claim (world s))) = (b, q')"
    by fastforce
  show ?thesis
    using lid f rq
    by (simp add: loop_unfold run_unfold engine_env_def claim_head [OF q] engine_isProcessed_def
          after_failure_def advance_def)
qed

lemma idle_pass:
  fixes s :: "('raw queue_store, 'raw) worker"
  assumes q: "workQueue (world s) = []"
  shows "snd (iteration (engine_env fetch send view key) (c, s))
            = (c + 1, advance s (world s)
                 (Ev_popListingId 5 (Returns None)
                    # (if maxEmptyChecks \<le> c + 1 then [] else [Ev_getStats (Returns ())]))
                 0 0 0 0)"
  using q
  by (simp add: loop_unfold run_unfold engine_env_def claim_empty advance_def)

lemma idle_passes:
  fixes s :: "('raw queue_store, 'raw) worker"
  assumes q: "workQueue (world s) = []"
  shows "\<exists>evs. snd (passes (engine_env fetch send view key) n (c, s)) = advance s (world s) evs 0 0 0 0
            \<and> attempts lid evs = 0"
  using q
proof (induction n arbitrary: c s)
  case 0
  have "snd (passes (engine_env fetch send view key) 0 (c, s)) = advance s (world s) [] 0 0 0 0
          \<and> attempts lid ([] :: 'raw event list) = 0"
    by (simp add: attempts_def)
  then show ?case by blast
next
  case (Suc n)
  define evs1 :: "'raw event list" where "evs1 = Ev_popListingId 5 (Returns None)
                    # (if maxEmptyChecks \<le> c + 1 then [] else [Ev_getStats (Returns ())])"
  define s1 where "s1 = advance s (world s) evs1 0 0 0 0"
  have step: "snd (iteration (engine_env fetch send view key) (c, s)) = (c + 1, s1)"
    unfolding s1_def evs1_def by (rule idle_pass [OF Suc.prems])
  have "workQueue (world s1) = []" using Suc.prems by (simp add: s1_def)
  from Suc.IH [OF this, of "c + 1"] obtain evs2 where
    "snd (passes (engine_env fetch send view key) n (c + 1, s1)) = advance s1 (world s1) evs2 0 0 0 0"
    "attempts lid evs2 = 0" by blast
  then have "snd (passes (engine_env fetch send view key) (Suc n) (c, s))
               = advance s (world s) (evs1 @ evs2) 0 0 0 0 \<and> attempts lid (evs1 @ evs2) = 0"
    by (simp add: step s1_def attempts_def evs1_def)
  then show ?case by blast
qed

lemma passes_add: "passes env (m + n) cs = passes env n (passes env m cs)"
  by (induction m arbitrary: cs) simp_all

lemma attempts_simps [simp]:
  "attempts lid [] = 0"
  "attempts lid (xs @ ys) = attempts lid xs + attempts lid ys"
  "attempts lid (x # xs) = (if is_attempt lid x then 1 else 0) + attempts lid xs"
  by (simp_all add: attempts_def)

lemma requeue_results_append [simp]:
  "requeue_results (xs @ ys) = requeue_results xs @ requeue_results ys"
  by (induction xs rule: requeue_results.induct) simp_all

lemma failed_pass_events_obs [simp]:
  "attempts lid (failed_pass_events lid e b) = 1"
  "requeue_results (failed_pass_events lid e b) = [(lid, 3, Returns b)]"
  by (simp_all add: failed_pass_events_def)

text \<open>C3. Retry ceiling. On the engine, a listing whose fetch raises on every attempt is
  requeued by the worker with the limit 3: the first three failures put it back on the queue,
  the fourth marks it failed and leaves the queue empty; the retry count after k failures is k;
  the worker counts one permanent failure; however many further passes the loop makes, the
  listing is attempted four times in all, and never a fifth; and a later admit of the same id
  is refused.\<close>

theorem retry_ceiling:
  fixes s :: "('raw queue_store, 'raw) worker"
  assumes q: "workQueue (world s) = [lid]" and r0: "retryCount (world s) lid = 0"
    and lid: "lid \<noteq> []" and f: "fetch lid = Throws e"
  shows "requeue_results (new_events s (snd (passes (engine_env fetch send view key) 4 (c, s))))
           = [(lid, 3, Returns True), (lid, 3, Returns True), (lid, 3, Returns True),
              (lid, 3, Returns False)]
       \<and> (\<forall>k\<le>4. retryCount (world (snd (passes (engine_env fetch send view key) k (c, s)))) lid = k)
       \<and> lstate (world (snd (passes (engine_env fetch send view key) 4 (c, s)))) lid = Some Failed
       \<and> workQueue (world (snd (passes (engine_env fetch send view key) 4 (c, s)))) = []
       \<and> failedCount (snd (passes (engine_env fetch send view key) 4 (c, s))) = failedCount s + 1
       \<and> attempts lid (new_events s (snd (passes (engine_env fetch send view key) 4 (c, s)))) = 4
       \<and> (\<forall>n. attempts lid
                 (new_events s (snd (passes (engine_env fetch send view key) (4 + n) (c, s)))) = 4)
       \<and> admit lid (world (snd (passes (engine_env fetch send view key) 4 (c, s))))
           = (False, world (snd (passes (engine_env fetch send view key) 4 (c, s))))"
proof -
  define env where "env = engine_env fetch send view key"
  define q1 where "q1 = after_failure lid (world s)"
  define q2 where "q2 = after_failure lid q1"
  define q3 where "q3 = after_failure lid q2"
  define q4 where "q4 = after_failure lid q3"
  define ev :: "bool \<Rightarrow> 'raw event list" where "ev = failed_pass_events lid e"
  define s1 where "s1 = advance s q1 (ev True) 0 0 0 0"
  define s2 where "s2 = advance s q2 (ev True @ ev True) 0 0 0 0"
  define s3 where "s3 = advance s q3 (ev True @ ev True @ ev True) 0 0 0 0"
  define s4 where "s4 = advance s q4 (ev True @ ev True @ ev True @ ev False) 0 0 0 1"
  note a1 = after_failure_retry [OF q r0, folded q1_def]
  have a1': "retryCount q1 lid = 1" using a1(2) by simp
  note a2 = after_failure_retry [OF a1(1) a1', folded q2_def]
  have a2': "retryCount q2 lid = 2" using a2(2) by simp
  note a3 = after_failure_retry [OF a2(1) a2', folded q3_def]
  have a3': "retryCount q3 lid = 3" using a3(2) by simp
  note a4 = after_failure_last [OF a3(1) a3', folded q4_def]
  have i1: "iteration env (c, s) = (Returns Continue, (0, s1))"
    using failing_pass [where fetch = fetch and send = send and view = view and key = key and c = c and s = s and lid = lid and e = e, OF q lid f] a1(4)
    by (simp add: env_def s1_def q1_def ev_def failed_pass_events_def)
  have w1: "workQueue (world s1) = [lid]" "world s1 = q1" using a1 by (simp_all add: s1_def)
  have i2: "iteration env (0, s1) = (Returns Continue, (0, s2))"
    using failing_pass [where fetch = fetch and send = send and view = view and key = key and c = 0 and s = s1 and lid = lid and e = e, OF w1(1) lid f] a2(4)
    by (simp add: env_def s1_def s2_def q2_def ev_def failed_pass_events_def)
  have w2: "workQueue (world s2) = [lid]" "world s2 = q2" using a2 by (simp_all add: s2_def)
  have i3: "iteration env (0, s2) = (Returns Continue, (0, s3))"
    using failing_pass [where fetch = fetch and send = send and view = view and key = key and c = 0 and s = s2 and lid = lid and e = e, OF w2(1) lid f] a3(4)
    by (simp add: env_def s2_def s3_def q3_def ev_def failed_pass_events_def)
  have w3: "workQueue (world s3) = [lid]" "world s3 = q3" using a3 by (simp_all add: s3_def)
  have i4: "iteration env (0, s3) = (Returns Continue, (0, s4))"
    using failing_pass [where fetch = fetch and send = send and view = view and key = key and c = 0 and s = s3 and lid = lid and e = e, OF w3(1) lid f] a4(4)
    by (simp add: env_def s3_def s4_def q4_def ev_def failed_pass_events_def)
  have p0: "passes env 0 (c, s) = (c, s)" by simp
  have p1: "passes env 1 (c, s) = (0, s1)" by (simp add: i1)
  have p2: "passes env 2 (c, s) = (0, s2)" by (simp add: i1 i2 eval_nat_numeral)
  have p3: "passes env 3 (c, s) = (0, s3)" by (simp add: i1 i2 i3 eval_nat_numeral)
  have p4: "passes env 4 (c, s) = (0, s4)" by (simp add: i1 i2 i3 i4 eval_nat_numeral)
  have counts: "retryCount (world (snd (passes env k (c, s)))) lid = k" if "k \<le> 4" for k
  proof -
    from that consider "k = 0" | "k = 1" | "k = 2" | "k = 3" | "k = 4" by linarith
    then show ?thesis
      using r0 a1' a2' a3' a4(2) p0 p1 p2 p3 p4
      by cases (simp_all add: s1_def s2_def s3_def s4_def del: passes.simps)
  qed
  have later: "attempts lid (new_events s (snd (passes env (4 + n) (c, s)))) = 4" for n
  proof -
    have empty: "workQueue (world s4) = []" using a4(1) by (simp add: s4_def)
    from idle_passes [OF empty, of fetch send view key n 0 lid] obtain evs where
      "snd (passes env n (0, s4)) = advance s4 (world s4) evs 0 0 0 0" "attempts lid evs = 0"
      unfolding env_def by blast
    then show ?thesis
      by (simp add: passes_add p4 s4_def ev_def)
  qed
  have known: "known q4 lid" using a4(3) by (simp add: known_def)
  show ?thesis
    unfolding env_def [symmetric]
    using counts later admit_known [OF known] a4
    by (simp add: p4 s4_def ev_def)
qed


theorem retry_ceiling_witness:
  "workQueue (world (engine_worker store_A1)) = [''A1'']
   \<and> retryCount (world (engine_worker store_A1)) ''A1'' = 0
   \<and> requeue_results
         (new_events (engine_worker store_A1)
            (snd (passes failing_engine_env 4 (0, engine_worker store_A1))))
       = [(''A1'', 3, Returns True), (''A1'', 3, Returns True), (''A1'', 3, Returns True),
          (''A1'', 3, Returns False)]
   \<and> retryCount (world (snd (passes failing_engine_env 2 (0, engine_worker store_A1)))) ''A1'' = 2
   \<and> lstate (world (snd (passes failing_engine_env 4 (0, engine_worker store_A1)))) ''A1''
       = Some Failed
   \<and> failedCount (snd (passes failing_engine_env 4 (0, engine_worker store_A1))) = 1
   \<and> attempts ''A1''
         (new_events (engine_worker store_A1)
            (snd (passes failing_engine_env (4 + 6) (0, engine_worker store_A1)))) = 4"
proof -
  have h1: "workQueue (world (engine_worker store_A1)) = [''A1'']"
    by (simp add: engine_worker_def store_A1_def empty_store_def admit_def known_def)
  have h2: "retryCount (world (engine_worker store_A1)) ''A1'' = 0"
    by (simp add: engine_worker_def store_A1_def empty_store_def admit_def known_def)
  have h3: "''A1'' \<noteq> []" by simp
  have h4: "(\<lambda>_ :: string. Throws ''timeout'' :: string hit list option outcome) ''A1''
              = Throws ''timeout''" by simp
  have h5: "failedCount (engine_worker store_A1) = 0" by (simp add: engine_worker_def)
  note c = retry_ceiling [where s = "engine_worker store_A1" and lid = "''A1''"
      and fetch = "\<lambda>_. Throws ''timeout''" and e = "''timeout''"
      and send = "\<lambda>_. Returns ()" and view = "\<lambda>_. Some raw0" and key = True and c = 0,
      OF h1 h2 h3 h4, folded failing_engine_env_def]
  from c have k2: "retryCount (world (snd (passes failing_engine_env 2 (0, engine_worker store_A1)))) ''A1'' = 2"
    by (elim conjE) (drule spec [where x = 2], simp del: passes.simps)
  note n6 = c [THEN conjunct2, THEN conjunct2, THEN conjunct2, THEN conjunct2, THEN conjunct2,
      THEN conjunct2, THEN conjunct1, rule_format, of 6]
  from c h1 h2 h5 k2 n6 show ?thesis by (simp del: passes.simps)
qed

section \<open>The geographic grid\<close>



lemma length_grid_row [simp]: "length (grid_row b g t latv i) = nat \<lceil>(east b - west b) / g\<rceil>"
  by (simp add: grid_row_def)





lemma lng_loop_diverges:
  assumes "g \<le> 0" and "lngv < east b"
  shows "lng_loop b g t latv lngv i cells = None"
proof -
  have "\<not> (g \<le> 0 \<and> lngv < east b)" if "lng_loop b g t latv lngv i cells = Some y" for y
  proof (rule lng_loop.raw_induct
      [where P = "\<lambda>b g t latv lngv i cells y. \<not> (g \<le> 0 \<and> lngv < east b)", OF _ that])
    fix f b g t latv lngv i cells y
    assume ih: "\<And>b g t latv lngv i cells y.
                 f b g t latv lngv i cells = Some y \<Longrightarrow> \<not> (g \<le> 0 \<and> lngv < east b)"
      and step: "(if lngv < east b
                  then f b g t latv (lngv + g) (i + 1) (cells @ [make_cell g t latv lngv (i + 1)])
                  else Some (cells, i)) = Some y"
    show "\<not> (g \<le> 0 \<and> lngv < east b)"
    proof
      assume a: "g \<le> 0 \<and> lngv < east b"
      with step have "f b g t latv (lngv + g) (i + 1) (cells @ [make_cell g t latv lngv (i + 1)])
                        = Some y" by simp
      from ih [OF this] a show False by simp
    qed
  qed
  with assms show ?thesis by (cases "lng_loop b g t latv lngv i cells") auto
qed










end
